theory Spec2Isabelle
  imports Main "HOL-Library.Sublist"
begin

section \<open>Values, cells and worksheets\<close>

text \<open>
  The errors the module can raise: the \<open>TypeError\<close> of reading a property of
  \<open>undefined\<close>, and \<open>new Error(msg)\<close>.
\<close>

datatype error = TypeError | Error string

text \<open>
  A cell value \<open>cell.v\<close>. The module observes a value only through
  \<open>!== undefined\<close>, \<open>!== ""\<close>, \<open>typeof v === "string"\<close> and \<open>String(v)\<close>, so a
  non-string scalar (number, boolean, date) is represented by its \<open>String\<close> coercion.
\<close>

datatype cellval = Undefined | Str string | Other string

datatype cell = Cell (cell_v: cellval)

text \<open>
  A worksheet object: its \<open>!ref\<close> property and its cells by A1-style address. Every
  address the module looks up ends in a digit, so it never meets the \<open>!ref\<close> key.
\<close>

record worksheet =
  ref :: "string option"
  cells :: "string \<Rightarrow> cell option"

text \<open>\<open>String(v)\<close>.\<close>

fun js_String :: "cellval \<Rightarrow> string" where
  "js_String Undefined = ''undefined''"
| "js_String (Str s) = s"
| "js_String (Other s) = s"

text \<open>
  A text is the list of its UTF-16 code units, and a \<open>char\<close> is a code unit below 256;
  texts with a code unit from 256 on are not represented.

  \<open>String.prototype.trim\<close> strips the white space and line terminators of the
  language from both ends. Below 256 these are TAB (9), LF (10), VT (11), FF (12),
  CR (13), SP (32) and the no-break space U+00A0 (160); the others (U+1680,
  U+2000 to U+200A, U+2028, U+2029, U+202F, U+205F, U+3000 and U+FEFF) lie from 256 on.
\<close>

definition is_ws :: "char \<Rightarrow> bool" where
  "is_ws ch = (of_char ch \<in> {9::nat, 10, 11, 12, 13, 32, 160})"

definition trim :: "string \<Rightarrow> string" where
  "trim s = rev (dropWhile is_ws (rev (dropWhile is_ws s)))"

subsection \<open>The addressing scheme of the spreadsheet library\<close>

text \<open>The decimal rendering of a whole number, as \<open>"" + n\<close> gives it.\<close>

function dec_nat :: "nat \<Rightarrow> string" where
  "dec_nat n = (if n < 10 then [char_of (48 + n)]
                else dec_nat (n div 10) @ [char_of (48 + n mod 10)])"
  by pat_completeness auto
termination
  by (relation "measure id") auto

declare dec_nat.simps [simp del]

definition num_str :: "int \<Rightarrow> string" where
  "num_str i = (if i < 0 then CHR ''-'' # dec_nat (nat (- i)) else dec_nat (nat i))"

text \<open>
  \<open>XLSX.utils.encode_cell({r, c})\<close>:
  \<^verbatim>\<open>var col = cell.c + 1; var s = "";
  for(; col; col = ((col-1)/26)|0) s = String.fromCharCode(((col-1)%26) + 65) + s;
  return s + (cell.r + 1);\<close>
  The module only passes column indices \<open>c \<ge> 0\<close>.
\<close>

function encode_col_loop :: "nat \<Rightarrow> string \<Rightarrow> string" where
  "encode_col_loop col s =
     (if col = 0 then s
      else encode_col_loop ((col - 1) div 26) (char_of ((col - 1) mod 26 + 65) # s))"
  by pat_completeness auto
termination
  by (relation "measure fst") auto

declare encode_col_loop.simps [simp del]

definition encode_cell :: "int \<Rightarrow> int \<Rightarrow> string" where
  "encode_cell r c = encode_col_loop (nat (c + 1)) [] @ num_str (r + 1)"

text \<open>
  \<open>XLSX.utils.decode_cell\<close>: digits accumulate the row, capital letters the column,
  every other character is skipped; the result is \<open>(R - 1, C - 1)\<close>, here as the pair
  \<open>(r, c)\<close>.
\<close>

fun decode_cell_loop :: "string \<Rightarrow> int \<Rightarrow> int \<Rightarrow> int \<times> int" where
  "decode_cell_loop [] R C = (R - 1, C - 1)"
| "decode_cell_loop (ch # cstr) R C =
     (let cc = of_char ch :: nat in
      if 48 \<le> cc \<and> cc \<le> 57 then decode_cell_loop cstr (10 * R + (int cc - 48)) C
      else if 65 \<le> cc \<and> cc \<le> 90 then decode_cell_loop cstr R (26 * C + (int cc - 64))
      else decode_cell_loop cstr R C)"

definition decode_cell :: "string \<Rightarrow> int \<times> int" where
  "decode_cell cstr = decode_cell_loop cstr 0 0"

text \<open>
  \<open>XLSX.utils.decode_range\<close>: the text is split at the first colon; without a colon
  both corners are the same cell. The result is the pair \<open>(s, e)\<close> of corners.
\<close>

definition decode_range :: "string \<Rightarrow> (int \<times> int) \<times> (int \<times> int)" where
  "decode_range rng =
     (if CHR '':'' \<in> set rng
      then (decode_cell (takeWhile (\<lambda>ch. ch \<noteq> CHR '':'') rng),
            decode_cell (drop 1 (dropWhile (\<lambda>ch. ch \<noteq> CHR '':'') rng)))
      else (decode_cell rng, decode_cell rng))"

section \<open>Blocks\<close>

record BlockRow =
  row :: int
  columnCount :: nat
  labelValue :: "string option"

record TableBlock =
  startRow :: int
  endRow :: int
  rows :: "BlockRow list"
  maxColumnCount :: nat

text \<open>
  A \<open>RegExp\<close> is represented by the predicate its \<open>test\<close> computes (a pattern without
  the \<open>g\<close> and \<open>y\<close> flags, whose \<open>test\<close> keeps no state).
\<close>

record HeaderDetectionOptions =
  headerPattern :: "(string \<Rightarrow> bool) option"
  noHeader :: "bool option"

subsection \<open>analyzeRow\<close>

text \<open>The test \<open>cell && cell.v !== undefined && cell.v !== ""\<close>.\<close>

definition occupied :: "cell option \<Rightarrow> bool" where
  "occupied co = (case co of None \<Rightarrow> False
                  | Some cl \<Rightarrow> cell_v cl \<noteq> Undefined \<and> cell_v cl \<noteq> Str [])"

function countColumns :: "worksheet \<Rightarrow> int \<Rightarrow> int \<Rightarrow> int \<Rightarrow> nat \<Rightarrow> nat" where
  "countColumns sheet rw maxCol col cnt =
     (if col < maxCol
      then countColumns sheet rw maxCol (col + 1)
             (if occupied (cells sheet (encode_cell (rw - 1) col)) then cnt + 1 else cnt)
      else cnt)"
  by pat_completeness auto
termination
  by (relation "measure (\<lambda>(sheet, rw, maxCol, col, cnt). nat (maxCol - col))") auto

declare countColumns.simps [simp del]

definition analyzeRow :: "worksheet \<Rightarrow> int \<Rightarrow> int \<Rightarrow> string \<Rightarrow> BlockRow" where
  "analyzeRow sheet rw maxCol labelColumn =
     \<lparr>row = rw,
      columnCount = countColumns sheet rw maxCol 0 0,
      labelValue =
        (case cells sheet (labelColumn @ num_str rw) of
           None \<Rightarrow> None
         | Some labelCell \<Rightarrow>
             Some (case cell_v labelCell of Str s \<Rightarrow> trim s | x \<Rightarrow> js_String x))\<rparr>"

subsection \<open>createBlock and detectTableBlocks\<close>

text \<open>
  On an empty row list \<open>rows[rows.length - 1]\<close> is \<open>undefined\<close> and reading its \<open>row\<close>
  raises.
\<close>

definition createBlock :: "BlockRow list \<Rightarrow> int \<Rightarrow> error + TableBlock" where
  "createBlock rws startRw =
     (if rws = [] then Inl TypeError
      else Inr \<lparr>startRow = startRw,
                endRow = row (last rws),
                rows = rws,
                maxColumnCount = Max (set (map columnCount rws))\<rparr>)"

record scan_state =
  blocks :: "TableBlock list"
  currentBlock :: "BlockRow list"
  blockStartRow :: int

definition scan_step ::
  "worksheet \<Rightarrow> int \<Rightarrow> string \<Rightarrow> int \<Rightarrow> scan_state \<Rightarrow> error + scan_state" where
  "scan_step sheet maxCol labelColumn rw st =
     (let rowInfo = analyzeRow sheet rw maxCol labelColumn in
      if columnCount rowInfo = 0 then
        (if currentBlock st \<noteq> [] then
           (case createBlock (currentBlock st) (blockStartRow st) of
              Inl err \<Rightarrow> Inl err
            | Inr b \<Rightarrow> Inr \<lparr>blocks = blocks st @ [b], currentBlock = [], blockStartRow = - 1\<rparr>)
         else Inr st)
      else
        Inr \<lparr>blocks = blocks st,
             currentBlock = currentBlock st @ [rowInfo],
             blockStartRow = (if blockStartRow st = - 1 then rw else blockStartRow st)\<rparr>)"

function scan_rows ::
  "worksheet \<Rightarrow> int \<Rightarrow> int \<Rightarrow> string \<Rightarrow> int \<Rightarrow> scan_state \<Rightarrow> error + scan_state" where
  "scan_rows sheet maxRw maxCol labelColumn rw st =
     (if rw \<le> maxRw then
        (case scan_step sheet maxCol labelColumn rw st of
           Inl err \<Rightarrow> Inl err
         | Inr st' \<Rightarrow> scan_rows sheet maxRw maxCol labelColumn (rw + 1) st')
      else Inr st)"
  by pat_completeness auto
termination
  by (relation "measure (\<lambda>(sheet, maxRw, maxCol, labelColumn, rw, st). nat (maxRw + 1 - rw))")
     auto

declare scan_rows.simps [simp del]

text \<open>
  \<open>decode_range(sheet["!ref"] || "A1")\<close> and the two bounds read from it:
  \<open>maxRow = range.e.r + 1\<close> and \<open>maxCol = range.e.c + 1\<close>. The start corner of
  the range is not read. The label column is passed explicitly; the source's default is
  \<open>"A"\<close>.
\<close>

definition sheet_range :: "worksheet \<Rightarrow> (int \<times> int) \<times> (int \<times> int)" where
  "sheet_range sheet =
     decode_range (case ref sheet of None \<Rightarrow> ''A1''
                   | Some s \<Rightarrow> if s = [] then ''A1'' else s)"

definition sheet_maxRow :: "worksheet \<Rightarrow> int" where
  "sheet_maxRow sheet = fst (snd (sheet_range sheet)) + 1"

definition sheet_maxCol :: "worksheet \<Rightarrow> int" where
  "sheet_maxCol sheet = snd (snd (sheet_range sheet)) + 1"

definition detectTableBlocks :: "worksheet \<Rightarrow> string \<Rightarrow> error + TableBlock list" where
  "detectTableBlocks sheet labelColumn =
     (case scan_rows sheet (sheet_maxRow sheet) (sheet_maxCol sheet) labelColumn 1
             \<lparr>blocks = [], currentBlock = [], blockStartRow = - 1\<rparr> of
        Inl err \<Rightarrow> Inl err
      | Inr st \<Rightarrow>
          if currentBlock st \<noteq> [] then
            (case createBlock (currentBlock st) (blockStartRow st) of
               Inl err \<Rightarrow> Inl err
             | Inr b \<Rightarrow> Inr (blocks st @ [b]))
          else Inr (blocks st))"

subsection \<open>Title, header and data rows\<close>

text \<open>On a block without rows \<open>firstRow\<close> is \<open>undefined\<close> and the comparison raises.\<close>

definition detectTitleRow :: "TableBlock \<Rightarrow> error + BlockRow option" where
  "detectTitleRow block =
     (case rows block of
        [] \<Rightarrow> Inl TypeError
      | firstRow # _ \<Rightarrow>
          if columnCount firstRow < maxColumnCount block then Inr (Some firstRow)
          else Inr None)"

text \<open>The truth value of \<open>r.labelValue\<close>: defined and not the empty string.\<close>

definition truthy :: "string option \<Rightarrow> bool" where
  "truthy lv = (case lv of None \<Rightarrow> False | Some s \<Rightarrow> s \<noteq> [])"

definition detectHeaderRow ::
  "TableBlock \<Rightarrow> HeaderDetectionOptions \<Rightarrow> error + BlockRow option" where
  "detectHeaderRow block options =
     (if noHeader options = Some True then Inr None
      else
        case detectTitleRow block of
          Inl err \<Rightarrow> Inl err
        | Inr titleRow \<Rightarrow>
            let dataRws = (if titleRow \<noteq> None then drop 1 (rows block) else rows block) in
            if length dataRws = 0 then Inr None
            else
              case headerPattern options of
                None \<Rightarrow> Inr (Some (hd dataRws))
              | Some pat \<Rightarrow>
                  (case find (\<lambda>r. truthy (labelValue r) \<and> pat (the (labelValue r))) dataRws of
                     Some match \<Rightarrow> Inr (Some match)
                   | None \<Rightarrow> Inr (Some (hd dataRws))))"

record BlockStructure =
  titleRow :: "BlockRow option"
  headerRow :: "BlockRow option"
  dataRows :: "BlockRow list"

definition analyzeBlockStructure ::
  "TableBlock \<Rightarrow> HeaderDetectionOptions \<Rightarrow> error + BlockStructure" where
  "analyzeBlockStructure block options =
     (case detectTitleRow block of
        Inl err \<Rightarrow> Inl err
      | Inr titleRw \<Rightarrow>
          case detectHeaderRow block options of
            Inl err \<Rightarrow> Inl err
          | Inr headerRw \<Rightarrow>
              let dataRws0 = rows block;
                  dataRws1 = (case titleRw of None \<Rightarrow> dataRws0
                              | Some t \<Rightarrow> filter (\<lambda>r. row r \<noteq> row t) dataRws0);
                  dataRws2 = (case headerRw of None \<Rightarrow> dataRws1
                              | Some h \<Rightarrow> filter (\<lambda>r. row r \<noteq> row h) dataRws1)
              in Inr \<lparr>titleRow = titleRw, headerRow = headerRw, dataRows = dataRws2\<rparr>)"

subsection \<open>loadSheet\<close>

text \<open>
  A parsed workbook: \<open>SheetNames\<close> (possibly missing) and \<open>Sheets\<close>. The parser
  \<open>XLSX.read\<close> is a parameter; it returns a workbook or raises.
\<close>

record workbook =
  SheetNames :: "string list option"
  Sheets :: "string \<Rightarrow> worksheet option"

definition loadSheet ::
  "('d \<Rightarrow> 't \<Rightarrow> error + workbook) \<Rightarrow> 'd \<Rightarrow> 't \<Rightarrow> error + worksheet option" where
  "loadSheet xlsx_read dat ty =
     (case xlsx_read dat ty of
        Inl err \<Rightarrow> Inl err
      | Inr wb \<Rightarrow>
          (case SheetNames wb of
             None \<Rightarrow> Inl (Error ''Workbook contains no sheets'')
           | Some names \<Rightarrow>
               if length names = 0 then Inl (Error ''Workbook contains no sheets'')
               else Inr (Sheets wb (hd names))))"

subsection \<open>extractBlockData\<close>

text \<open>\<open>cell?.v !== undefined ? String(cell.v) : ""\<close>.\<close>

definition cell_text :: "cell option \<Rightarrow> string" where
  "cell_text co = (case co of None \<Rightarrow> []
                   | Some cl \<Rightarrow> if cell_v cl \<noteq> Undefined then js_String (cell_v cl) else [])"

function extract_cols :: "worksheet \<Rightarrow> int \<Rightarrow> nat \<Rightarrow> nat \<Rightarrow> string list \<Rightarrow> string list" where
  "extract_cols sheet rw maxCC col rowData =
     (if col < maxCC
      then extract_cols sheet rw maxCC (col + 1)
             (rowData @ [cell_text (cells sheet (encode_cell (rw - 1) (int col)))])
      else rowData)"
  by pat_completeness auto
termination
  by (relation "measure (\<lambda>(sheet, rw, maxCC, col, rowData). maxCC - col)") auto

declare extract_cols.simps [simp del]

function extract_rows ::
  "worksheet \<Rightarrow> TableBlock \<Rightarrow> int \<Rightarrow> string list list \<Rightarrow> string list list" where
  "extract_rows sheet block rw data =
     (if rw \<le> endRow block
      then extract_rows sheet block (rw + 1)
             (data @ [extract_cols sheet rw (maxColumnCount block) 0 []])
      else data)"
  by pat_completeness auto
termination
  by (relation "measure (\<lambda>(sheet, block, rw, data). nat (endRow block + 1 - rw))") auto

declare extract_rows.simps [simp del]

definition extractBlockData :: "worksheet \<Rightarrow> TableBlock \<Rightarrow> string list list" where
  "extractBlockData sheet block = extract_rows sheet block (startRow block) []"

section \<open>Notions used in the statements\<close>

text \<open>
  A row is occupied when one of the columns \<open>0 .. maxCol - 1\<close> holds an occupied cell.
\<close>

definition row_occupied :: "worksheet \<Rightarrow> int \<Rightarrow> bool" where
  "row_occupied sheet rw =
     (\<exists>cl \<in> {0..<sheet_maxCol sheet}. occupied (cells sheet (encode_cell (rw - 1) cl)))"

text \<open>
  The rows among which the header is sought: the rows of the block without the detected
  title row, all of them when no title is detected.
\<close>

definition candidateRows :: "TableBlock \<Rightarrow> BlockRow list" where
  "candidateRows block =
     (case detectTitleRow block of
        Inr (Some t) \<Rightarrow> remove1 t (rows block)
      | _ \<Rightarrow> rows block)"

text \<open>A row whose label is defined, is not the empty string and matches the pattern.\<close>

definition label_matches :: "(string \<Rightarrow> bool) \<Rightarrow> BlockRow \<Rightarrow> bool" where
  "label_matches pat r = (case labelValue r of None \<Rightarrow> False | Some s \<Rightarrow> s \<noteq> [] \<and> pat s)"

text \<open>A workbook that declares no sheet: its list of sheet names is missing or empty.\<close>

definition declares_no_sheets :: "workbook \<Rightarrow> bool" where
  "declares_no_sheets wb = (case SheetNames wb of None \<Rightarrow> True | Some names \<Rightarrow> names = [])"

subsection \<open>The invariant of the row scan\<close>

text \<open>
  A finished block holds the descriptors \<open>A rw\<close> of a run of rows, none of them empty.
\<close>

definition block_ok :: "(int \<Rightarrow> BlockRow) \<Rightarrow> TableBlock \<Rightarrow> bool" where
  "block_ok A b =
     (1 \<le> startRow b \<and> startRow b \<le> endRow b \<and>
      rows b = map A [startRow b..endRow b] \<and>
      (\<forall>rw \<in> {startRow b..endRow b}. columnCount (A rw) \<noteq> 0) \<and>
      maxColumnCount b = Max (set (map columnCount (rows b))))"

text \<open>
  Before row \<open>n\<close> is read: every finished block ends before an empty row that was read;
  the finished blocks are in increasing order with gaps; the buffer holds the rows from
  \<open>blockStartRow\<close> to \<open>n - 1\<close>, or is empty with \<open>blockStartRow = -1\<close>; and every
  occupied row read so far lies in a finished block or in the buffer.
\<close>

definition scan_inv :: "(int \<Rightarrow> BlockRow) \<Rightarrow> int \<Rightarrow> scan_state \<Rightarrow> bool" where
  "scan_inv A n st =
     ((\<forall>b \<in> set (blocks st). block_ok A b \<and> endRow b + 1 < n \<and>
          columnCount (A (endRow b + 1)) = 0) \<and>
      sorted_wrt (\<lambda>a b. endRow a + 1 < startRow b) (blocks st) \<and>
      (if currentBlock st = [] then blockStartRow st = - 1
       else 1 \<le> blockStartRow st \<and> blockStartRow st < n \<and>
            currentBlock st = map A [blockStartRow st..n - 1] \<and>
            (\<forall>rw \<in> {blockStartRow st..n - 1}. columnCount (A rw) \<noteq> 0) \<and>
            (\<forall>b \<in> set (blocks st). endRow b + 1 < blockStartRow st)) \<and>
      (\<forall>rw. 1 \<le> rw \<and> rw < n \<and> columnCount (A rw) \<noteq> 0 \<longrightarrow>
          (\<exists>b \<in> set (blocks st). startRow b \<le> rw \<and> rw \<le> endRow b) \<or>
          (currentBlock st \<noteq> [] \<and> blockStartRow st \<le> rw)))"

section \<open>Example inputs\<close>

text \<open>
  A sheet with a title row, a two-column row, a blank row and a row whose only cell lies
  in column C; its two blocks as \<open>detectTableBlocks\<close> builds them.
\<close>

definition ex_sheet :: worksheet where
  "ex_sheet = \<lparr>ref = Some ''A1:C4'',
               cells = [''A1'' \<mapsto> Cell (Str ''Title''), ''A2'' \<mapsto> Cell (Str '' h ''),
                        ''B2'' \<mapsto> Cell (Other ''2''), ''C4'' \<mapsto> Cell (Str ''x'')]\<rparr>"

definition ex_block :: TableBlock where
  "ex_block = \<lparr>startRow = 1, endRow = 2,
               rows = [\<lparr>row = 1, columnCount = 1, labelValue = Some ''Title''\<rparr>,
                       \<lparr>row = 2, columnCount = 2, labelValue = Some ''h''\<rparr>],
               maxColumnCount = 2\<rparr>"

definition ex_block2 :: TableBlock where
  "ex_block2 = \<lparr>startRow = 4, endRow = 4,
                rows = [\<lparr>row = 4, columnCount = 1, labelValue = None\<rparr>],
                maxColumnCount = 1\<rparr>"

definition ex_workbook :: workbook where
  "ex_workbook = \<lparr>SheetNames = Some [''Sheet1'', ''Sheet2''],
                  Sheets = [''Sheet1'' \<mapsto> ex_sheet]\<rparr>"

text \<open>A sheet whose label \<open>A1\<close> is the letter h between two no-break spaces.\<close>

definition nbsp :: char where
  "nbsp = char_of (160::nat)"

definition ex_nbsp_sheet :: worksheet where
  "ex_nbsp_sheet = \<lparr>ref = Some ''A1:A1'',
                    cells = [''A1'' \<mapsto> Cell (Str [nbsp, CHR ''h'', nbsp])]\<rparr>"

text \<open>A single-row block whose \<open>maxColumnCount\<close> exceeds the count of its row.\<close>

definition cx_title_block :: TableBlock where
  "cx_title_block = \<lparr>startRow = 1, endRow = 1,
                     rows = [\<lparr>row = 1, columnCount = 1, labelValue = Some ''T''\<rparr>],
                     maxColumnCount = 5\<rparr>"

text \<open>A sheet whose label cell \<open>A1\<close> exists and holds the empty string.\<close>

definition cx_label_sheet :: worksheet where
  "cx_label_sheet = \<lparr>ref = Some ''A1:B1'',
                     cells = [''A1'' \<mapsto> Cell (Str []), ''B1'' \<mapsto> Cell (Str ''x'')]\<rparr>"

text \<open>
  A sheet whose first label is a single space, the block \<open>detectTableBlocks\<close> builds
  from it, a block without rows, and a pattern that matches every string.
\<close>

definition cx_header_sheet :: worksheet where
  "cx_header_sheet = \<lparr>ref = Some ''A1:A2'',
                      cells = [''A1'' \<mapsto> Cell (Str '' ''), ''A2'' \<mapsto> Cell (Str ''x'')]\<rparr>"

definition cx_header_block :: TableBlock where
  "cx_header_block = \<lparr>startRow = 1, endRow = 2,
                      rows = [\<lparr>row = 1, columnCount = 1, labelValue = Some []\<rparr>,
                              \<lparr>row = 2, columnCount = 1, labelValue = Some ''x''\<rparr>],
                      maxColumnCount = 1\<rparr>"

definition cx_empty_block :: TableBlock where
  "cx_empty_block = \<lparr>startRow = 1, endRow = 0, rows = [], maxColumnCount = 0\<rparr>"

definition match_all :: "string \<Rightarrow> bool" where
  "match_all s = True"

text \<open>
  A sheet whose declared range \<open>A1:B2\<close> holds no occupied cell: one cell with the empty
  string, one without a value, and an occupied cell beyond the last declared column.
\<close>

definition ex_blank_sheet :: worksheet where
  "ex_blank_sheet = \<lparr>ref = Some ''A1:B2'',
                     cells = [''A1'' \<mapsto> Cell (Str []), ''B2'' \<mapsto> Cell Undefined,
                              ''C1'' \<mapsto> Cell (Str ''x'')]\<rparr>"

text \<open>
  Two sheets that declare the range \<open>B1:B1\<close> and agree on \<open>B1\<close>, and two that declare
  \<open>A1:A1\<close> and agree on \<open>A1\<close>; the second of each pair has one more cell outside
  the declared range.
\<close>

definition cx_range_sheet1 :: worksheet where
  "cx_range_sheet1 = \<lparr>ref = Some ''B1:B1'', cells = [''B1'' \<mapsto> Cell (Str ''x'')]\<rparr>"

definition cx_range_sheet2 :: worksheet where
  "cx_range_sheet2 = \<lparr>ref = Some ''B1:B1'',
                      cells = [''B1'' \<mapsto> Cell (Str ''x''), ''A1'' \<mapsto> Cell (Str ''y'')]\<rparr>"

definition cx_label_col_sheet1 :: worksheet where
  "cx_label_col_sheet1 = \<lparr>ref = Some ''A1:A1'', cells = [''A1'' \<mapsto> Cell (Str ''x'')]\<rparr>"

definition cx_label_col_sheet2 :: worksheet where
  "cx_label_col_sheet2 = \<lparr>ref = Some ''A1:A1'',
                          cells = [''A1'' \<mapsto> Cell (Str ''x''), ''B1'' \<mapsto> Cell (Str ''y'')]\<rparr>"

section \<open>Segmentation into blocks\<close>

lemma row_analyzeRow [simp]: "row (analyzeRow sheet rw mc lc) = rw"
  by (simp add: analyzeRow_def)

lemma createBlock_ok:
  assumes "1 \<le> s" and "s < n" and "cur = map A [s..n - 1]"
    and "\<forall>rw \<in> {s..n - 1}. columnCount (A rw) \<noteq> 0" and "\<And>rw. row (A rw) = rw"
  shows "\<exists>b. createBlock cur s = Inr b \<and> block_ok A b \<and> startRow b = s \<and> endRow b = n - 1"
proof -
  from assms have ne: "cur \<noteq> []" by simp
  from assms have "[s..n - 1] = [s..n - 1 - 1] @ [n - 1]"
    by (intro upto_rec2) simp
  then have "last cur = A (n - 1)"
    using assms(3) by (metis last_map last_snoc snoc_eq_iff_butlast)
  then have e: "row (last cur) = n - 1" using assms(5) by simp
  define b where "b = \<lparr>startRow = s, endRow = row (last cur), rows = cur,
                        maxColumnCount = Max (set (map columnCount cur))\<rparr>"
  have "createBlock cur s = Inr b"
    using ne by (simp add: createBlock_def b_def)
  moreover have "maxColumnCount b = Max (set (map columnCount (rows b)))"
    by (simp add: b_def)
  moreover have "startRow b = s" "endRow b = n - 1" "rows b = map A [s..n - 1]"
    using e assms(3) by (simp_all add: b_def)
  ultimately show ?thesis
    using assms(1,2,4) unfolding block_ok_def by (auto simp: image_image)
qed

lemma scan_step_inv:
  assumes inv: "scan_inv (\<lambda>rw. analyzeRow sheet rw mc lc) n st" and n: "1 \<le> n"
  shows "\<exists>st'. scan_step sheet mc lc n st = Inr st' \<and>
               scan_inv (\<lambda>rw. analyzeRow sheet rw mc lc) (n + 1) st'"
proof -
  let ?A = "\<lambda>rw. analyzeRow sheet rw mc lc"
  show ?thesis
  proof (cases "columnCount (?A n) = 0")
    case empty: True
    show ?thesis
    proof (cases "currentBlock st = []")
      case True
      then have "scan_step sheet mc lc n st = Inr st"
        using empty by (simp add: scan_step_def)
      moreover have "scan_inv ?A (n + 1) st"
        unfolding scan_inv_def
      proof (intro conjI)
        show "\<forall>b \<in> set (blocks st). block_ok ?A b \<and> endRow b + 1 < n + 1 \<and>
                columnCount (?A (endRow b + 1)) = 0"
          using inv by (auto simp: scan_inv_def)
        show "sorted_wrt (\<lambda>a b. endRow a + 1 < startRow b) (blocks st)"
          using inv by (simp add: scan_inv_def)
        show "if currentBlock st = [] then blockStartRow st = - 1
              else 1 \<le> blockStartRow st \<and> blockStartRow st < n + 1 \<and>
                currentBlock st = map ?A [blockStartRow st..n + 1 - 1] \<and>
                (\<forall>rw \<in> {blockStartRow st..n + 1 - 1}. columnCount (?A rw) \<noteq> 0) \<and>
                (\<forall>b \<in> set (blocks st). endRow b + 1 < blockStartRow st)"
          using inv True by (simp add: scan_inv_def)
        show "\<forall>rw. 1 \<le> rw \<and> rw < n + 1 \<and> columnCount (?A rw) \<noteq> 0 \<longrightarrow>
                (\<exists>b \<in> set (blocks st). startRow b \<le> rw \<and> rw \<le> endRow b) \<or>
                (currentBlock st \<noteq> [] \<and> blockStartRow st \<le> rw)"
        proof (intro allI impI)
          fix rw assume rw: "1 \<le> rw \<and> rw < n + 1 \<and> columnCount (?A rw) \<noteq> 0"
          with empty have "rw < n" by (cases "rw = n") auto
          with rw inv show "(\<exists>b \<in> set (blocks st). startRow b \<le> rw \<and> rw \<le> endRow b) \<or>
              (currentBlock st \<noteq> [] \<and> blockStartRow st \<le> rw)"
            unfolding scan_inv_def by blast
        qed
      qed
      ultimately show ?thesis by blast
    next
      case False
      with inv have c: "1 \<le> blockStartRow st" "blockStartRow st < n"
        "currentBlock st = map ?A [blockStartRow st..n - 1]"
        "\<forall>rw \<in> {blockStartRow st..n - 1}. columnCount (?A rw) \<noteq> 0"
        "\<forall>b \<in> set (blocks st). endRow b + 1 < blockStartRow st"
        by (simp_all add: scan_inv_def)
      from createBlock_ok [OF c(1) c(2) c(3) c(4)]
      obtain b where b: "createBlock (currentBlock st) (blockStartRow st) = Inr b"
        "block_ok ?A b" "startRow b = blockStartRow st" "endRow b = n - 1"
        by auto
      let ?st' = "\<lparr>blocks = blocks st @ [b], currentBlock = [], blockStartRow = - 1\<rparr>"
      have "scan_step sheet mc lc n st = Inr ?st'"
        using empty False b(1) by (simp add: scan_step_def)
      moreover have "scan_inv ?A (n + 1) ?st'"
        unfolding scan_inv_def
      proof (intro conjI)
        show "\<forall>b \<in> set (blocks ?st'). block_ok ?A b \<and> endRow b + 1 < n + 1 \<and>
                columnCount (?A (endRow b + 1)) = 0"
          using inv b empty by (auto simp: scan_inv_def)
        show "sorted_wrt (\<lambda>a b. endRow a + 1 < startRow b) (blocks ?st')"
          using inv c(5) b(3) by (simp add: scan_inv_def sorted_wrt_append)
        show "if currentBlock ?st' = [] then blockStartRow ?st' = - 1
              else 1 \<le> blockStartRow ?st' \<and> blockStartRow ?st' < n + 1 \<and>
                currentBlock ?st' = map ?A [blockStartRow ?st'..n + 1 - 1] \<and>
                (\<forall>rw \<in> {blockStartRow ?st'..n + 1 - 1}. columnCount (?A rw) \<noteq> 0) \<and>
                (\<forall>b \<in> set (blocks ?st'). endRow b + 1 < blockStartRow ?st')"
          by simp
        show "\<forall>rw. 1 \<le> rw \<and> rw < n + 1 \<and> columnCount (?A rw) \<noteq> 0 \<longrightarrow>
                (\<exists>b \<in> set (blocks ?st'). startRow b \<le> rw \<and> rw \<le> endRow b) \<or>
                (currentBlock ?st' \<noteq> [] \<and> blockStartRow ?st' \<le> rw)"
        proof (intro allI impI)
          fix rw assume rw: "1 \<le> rw \<and> rw < n + 1 \<and> columnCount (?A rw) \<noteq> 0"
          with empty have "rw < n" by (cases "rw = n") auto
          with rw inv have "(\<exists>b \<in> set (blocks st). startRow b \<le> rw \<and> rw \<le> endRow b) \<or>
              blockStartRow st \<le> rw"
            unfolding scan_inv_def by blast
          then show "(\<exists>b \<in> set (blocks ?st'). startRow b \<le> rw \<and> rw \<le> endRow b) \<or>
                (currentBlock ?st' \<noteq> [] \<and> blockStartRow ?st' \<le> rw)"
            using b(3,4) \<open>rw < n\<close> by auto
        qed
      qed
      ultimately show ?thesis by blast
    qed
  next
    case occ: False
    let ?st' = "\<lparr>blocks = blocks st,
                  currentBlock = currentBlock st @ [?A n],
                  blockStartRow = (if blockStartRow st = - 1 then n else blockStartRow st)\<rparr>"
    have step: "scan_step sheet mc lc n st = Inr ?st'"
      using occ by (simp add: scan_step_def Let_def)
    have "scan_inv ?A (n + 1) ?st'"
    proof (cases "currentBlock st = []")
      case True
      with inv have s: "blockStartRow st = - 1" by (simp add: scan_inv_def)
      show ?thesis
        unfolding scan_inv_def
      proof (intro conjI)
        show "\<forall>b \<in> set (blocks ?st'). block_ok ?A b \<and> endRow b + 1 < n + 1 \<and>
                columnCount (?A (endRow b + 1)) = 0"
          using inv by (auto simp: scan_inv_def)
        show "sorted_wrt (\<lambda>a b. endRow a + 1 < startRow b) (blocks ?st')"
          using inv by (simp add: scan_inv_def)
        have "\<forall>b \<in> set (blocks st). endRow b + 1 < n"
          using inv by (simp add: scan_inv_def)
        then show "if currentBlock ?st' = [] then blockStartRow ?st' = - 1
              else 1 \<le> blockStartRow ?st' \<and> blockStartRow ?st' < n + 1 \<and>
                currentBlock ?st' = map ?A [blockStartRow ?st'..n + 1 - 1] \<and>
                (\<forall>rw \<in> {blockStartRow ?st'..n + 1 - 1}. columnCount (?A rw) \<noteq> 0) \<and>
                (\<forall>b \<in> set (blocks ?st'). endRow b + 1 < blockStartRow ?st')"
          using True s occ n by simp
        show "\<forall>rw. 1 \<le> rw \<and> rw < n + 1 \<and> columnCount (?A rw) \<noteq> 0 \<longrightarrow>
                (\<exists>b \<in> set (blocks ?st'). startRow b \<le> rw \<and> rw \<le> endRow b) \<or>
                (currentBlock ?st' \<noteq> [] \<and> blockStartRow ?st' \<le> rw)"
        proof (intro allI impI)
          fix rw assume rw: "1 \<le> rw \<and> rw < n + 1 \<and> columnCount (?A rw) \<noteq> 0"
          show "(\<exists>b \<in> set (blocks ?st'). startRow b \<le> rw \<and> rw \<le> endRow b) \<or>
                (currentBlock ?st' \<noteq> [] \<and> blockStartRow ?st' \<le> rw)"
          proof (cases "rw = n")
            case True
            then show ?thesis using s by simp
          next
            case False
            with rw have "rw < n" by simp
            with rw inv \<open>currentBlock st = []\<close>
            have "\<exists>b \<in> set (blocks st). startRow b \<le> rw \<and> rw \<le> endRow b"
              unfolding scan_inv_def by blast
            then show ?thesis by simp
          qed
        qed
      qed
    next
      case False
      with inv have c: "1 \<le> blockStartRow st" "blockStartRow st < n"
        "currentBlock st = map ?A [blockStartRow st..n - 1]"
        "\<forall>rw \<in> {blockStartRow st..n - 1}. columnCount (?A rw) \<noteq> 0"
        "\<forall>b \<in> set (blocks st). endRow b + 1 < blockStartRow st"
        by (simp_all add: scan_inv_def)
      have u: "[blockStartRow st..n] = [blockStartRow st..n - 1] @ [n]"
        using c(2) by (intro upto_rec2) simp
      have cur: "currentBlock st @ [?A n] = map ?A [blockStartRow st..n]"
        by (simp add: u c(3))
      have s: "blockStartRow st \<noteq> - 1" using c(1) by simp
      show ?thesis
        unfolding scan_inv_def
      proof (intro conjI)
        show "\<forall>b \<in> set (blocks ?st'). block_ok ?A b \<and> endRow b + 1 < n + 1 \<and>
                columnCount (?A (endRow b + 1)) = 0"
          using inv by (auto simp: scan_inv_def)
        show "sorted_wrt (\<lambda>a b. endRow a + 1 < startRow b) (blocks ?st')"
          using inv by (simp add: scan_inv_def)
        show "if currentBlock ?st' = [] then blockStartRow ?st' = - 1
              else 1 \<le> blockStartRow ?st' \<and> blockStartRow ?st' < n + 1 \<and>
                currentBlock ?st' = map ?A [blockStartRow ?st'..n + 1 - 1] \<and>
                (\<forall>rw \<in> {blockStartRow ?st'..n + 1 - 1}. columnCount (?A rw) \<noteq> 0) \<and>
                (\<forall>b \<in> set (blocks ?st'). endRow b + 1 < blockStartRow ?st')"
          using c s occ cur by auto
        show "\<forall>rw. 1 \<le> rw \<and> rw < n + 1 \<and> columnCount (?A rw) \<noteq> 0 \<longrightarrow>
                (\<exists>b \<in> set (blocks ?st'). startRow b \<le> rw \<and> rw \<le> endRow b) \<or>
                (currentBlock ?st' \<noteq> [] \<and> blockStartRow ?st' \<le> rw)"
        proof (intro allI impI)
          fix rw assume rw: "1 \<le> rw \<and> rw < n + 1 \<and> columnCount (?A rw) \<noteq> 0"
          show "(\<exists>b \<in> set (blocks ?st'). startRow b \<le> rw \<and> rw \<le> endRow b) \<or>
                (currentBlock ?st' \<noteq> [] \<and> blockStartRow ?st' \<le> rw)"
          proof (cases "rw = n")
            case True
            then show ?thesis using c s by simp
          next
            case False
            with rw have "rw < n" by simp
            with rw inv have "(\<exists>b \<in> set (blocks st). startRow b \<le> rw \<and> rw \<le> endRow b) \<or>
              blockStartRow st \<le> rw"
              unfolding scan_inv_def by blast
            then show ?thesis using s by auto
          qed
        qed
      qed
    qed
    with step show ?thesis by blast
  qed
qed

lemma scan_rows_inv:
  "scan_inv (\<lambda>rw. analyzeRow sheet rw mc lc) n st \<Longrightarrow> 1 \<le> n \<Longrightarrow>
   \<exists>st'. scan_rows sheet mr mc lc n st = Inr st' \<and>
         scan_inv (\<lambda>rw. analyzeRow sheet rw mc lc) (max n (mr + 1)) st'"
proof (induction sheet mr mc lc n st rule: scan_rows.induct)
  case (1 sheet mr mc lc n st)
  show ?case
  proof (cases "n \<le> mr")
    case True
    from scan_step_inv [OF "1.prems"]
    obtain st1 where s: "scan_step sheet mc lc n st = Inr st1"
      "scan_inv (\<lambda>rw. analyzeRow sheet rw mc lc) (n + 1) st1" by blast
    from "1.IH" [OF True s(1) s(2)] "1.prems"(2)
    obtain st' where "scan_rows sheet mr mc lc (n + 1) st1 = Inr st'"
      "scan_inv (\<lambda>rw. analyzeRow sheet rw mc lc) (max (n + 1) (mr + 1)) st'" by auto
    moreover have "max (n + 1) (mr + 1) = max n (mr + 1)" using True by simp
    ultimately show ?thesis
      using True s(1) by (subst scan_rows.simps) simp
  next
    case False
    then have "max n (mr + 1) = n" by simp
    with False "1.prems" show ?thesis
      by (subst scan_rows.simps) simp
  qed
qed


lemma countColumns_eq:
  "countColumns sheet rw mc col cnt =
     cnt + length (filter (\<lambda>c. occupied (cells sheet (encode_cell (rw - 1) c))) [col..mc - 1])"
proof (induction sheet rw mc col cnt rule: countColumns.induct)
  case (1 sheet rw mc col cnt)
  show ?case
  proof (cases "col < mc")
    case True
    then have "[col..mc - 1] = col # [col + 1..mc - 1]"
      by (intro upto_rec1) simp
    with True "1.IH" show ?thesis
      by (subst countColumns.simps) simp
  next
    case False
    then show ?thesis by (subst countColumns.simps) simp
  qed
qed

lemma columnCount_zero_iff:
  "columnCount (analyzeRow sheet rw (sheet_maxCol sheet) lc) = 0 \<longleftrightarrow> \<not> row_occupied sheet rw"
  by (auto simp: analyzeRow_def countColumns_eq row_occupied_def filter_empty_conv)

lemma detectTableBlocks_sound:
  fixes sheet lc
  defines "A \<equiv> \<lambda>rw. analyzeRow sheet rw (sheet_maxCol sheet) lc"
  shows "\<exists>bs. detectTableBlocks sheet lc = Inr bs \<and>
           (\<forall>b \<in> set bs. block_ok A b \<and> endRow b \<le> sheet_maxRow sheet) \<and>
           sorted_wrt (\<lambda>a b. endRow a + 1 < startRow b) bs \<and>
           (\<forall>i. Suc i < length bs \<longrightarrow> columnCount (A (endRow (bs ! i) + 1)) = 0 \<and>
                endRow (bs ! i) + 1 \<le> sheet_maxRow sheet) \<and>
           (\<forall>rw. 1 \<le> rw \<and> rw \<le> sheet_maxRow sheet \<and> columnCount (A rw) \<noteq> 0 \<longrightarrow>
                (\<exists>b \<in> set bs. startRow b \<le> rw \<and> rw \<le> endRow b))"
proof -
  let ?mr = "sheet_maxRow sheet"
  let ?N = "max 1 (?mr + 1)"
  let ?init = "\<lparr>blocks = [], currentBlock = [], blockStartRow = - 1\<rparr>"
  have "scan_inv A 1 ?init" by (simp add: scan_inv_def)
  from scan_rows_inv [OF this [unfolded A_def], of ?mr]
  obtain st where st: "scan_rows sheet ?mr (sheet_maxCol sheet) lc 1 ?init = Inr st"
    and inv: "scan_inv A ?N st"
    by (auto simp: A_def)
  have blk: "\<forall>b \<in> set (blocks st). block_ok A b \<and> endRow b + 1 < ?N \<and>
                columnCount (A (endRow b + 1)) = 0"
    and srt: "sorted_wrt (\<lambda>a b. endRow a + 1 < startRow b) (blocks st)"
    and cov: "\<forall>rw. 1 \<le> rw \<and> rw < ?N \<and> columnCount (A rw) \<noteq> 0 \<longrightarrow>
          (\<exists>b \<in> set (blocks st). startRow b \<le> rw \<and> rw \<le> endRow b) \<or>
          (currentBlock st \<noteq> [] \<and> blockStartRow st \<le> rw)"
    using inv by (simp_all add: scan_inv_def)
  have blk_le: "\<forall>b \<in> set (blocks st). endRow b + 1 \<le> ?mr"
  proof
    fix b assume "b \<in> set (blocks st)"
    with blk have "endRow b + 1 < ?N" "1 \<le> startRow b" "startRow b \<le> endRow b"
      by (auto simp: block_ok_def)
    then show "endRow b + 1 \<le> ?mr" by (simp add: max_def split: if_splits)
  qed
  show ?thesis
  proof (cases "currentBlock st = []")
    case True
    then have res: "detectTableBlocks sheet lc = Inr (blocks st)"
      by (simp add: detectTableBlocks_def st)
    have "\<forall>rw. 1 \<le> rw \<and> rw \<le> ?mr \<and> columnCount (A rw) \<noteq> 0 \<longrightarrow>
                (\<exists>b \<in> set (blocks st). startRow b \<le> rw \<and> rw \<le> endRow b)"
    proof (intro allI impI)
      fix rw assume rw: "1 \<le> rw \<and> rw \<le> ?mr \<and> columnCount (A rw) \<noteq> 0"
      then have "rw < ?N" by simp
      with rw cov True show "\<exists>b \<in> set (blocks st). startRow b \<le> rw \<and> rw \<le> endRow b"
        by blast
    qed
    moreover have "\<forall>b \<in> set (blocks st). block_ok A b \<and> endRow b \<le> ?mr"
      using blk blk_le by auto
    moreover have "\<forall>i. Suc i < length (blocks st) \<longrightarrow>
        columnCount (A (endRow (blocks st ! i) + 1)) = 0 \<and> endRow (blocks st ! i) + 1 \<le> ?mr"
      using blk blk_le by (auto simp: all_set_conv_all_nth)
    ultimately show ?thesis using res srt by blast
  next
    case False
    with inv have c: "1 \<le> blockStartRow st" "blockStartRow st < ?N"
      "currentBlock st = map A [blockStartRow st..?N - 1]"
      "\<forall>rw \<in> {blockStartRow st..?N - 1}. columnCount (A rw) \<noteq> 0"
      "\<forall>b \<in> set (blocks st). endRow b + 1 < blockStartRow st"
      by (simp_all add: scan_inv_def)
    have rowA: "\<And>rw. row (A rw) = rw" by (simp add: A_def)
    from createBlock_ok [OF c(1) c(2) c(3) c(4) rowA]
    obtain b where b: "createBlock (currentBlock st) (blockStartRow st) = Inr b"
      "block_ok A b" "startRow b = blockStartRow st" "endRow b = ?N - 1"
      by auto
    have N: "?N = ?mr + 1" using c(1,2) by (simp add: max_def split: if_splits)
    have res: "detectTableBlocks sheet lc = Inr (blocks st @ [b])"
      using False b(1) by (simp add: detectTableBlocks_def st)
    have 1: "\<forall>x \<in> set (blocks st @ [b]). block_ok A x \<and> endRow x \<le> ?mr"
      using blk blk_le b N by auto
    have 2: "sorted_wrt (\<lambda>a b. endRow a + 1 < startRow b) (blocks st @ [b])"
      using srt c(5) b(3) by (simp add: sorted_wrt_append)
    have 3: "\<forall>i. Suc i < length (blocks st @ [b]) \<longrightarrow>
        columnCount (A (endRow ((blocks st @ [b]) ! i) + 1)) = 0 \<and>
        endRow ((blocks st @ [b]) ! i) + 1 \<le> ?mr"
      using blk blk_le by (auto simp: all_set_conv_all_nth nth_append)
    have 4: "\<forall>rw. 1 \<le> rw \<and> rw \<le> ?mr \<and> columnCount (A rw) \<noteq> 0 \<longrightarrow>
                (\<exists>x \<in> set (blocks st @ [b]). startRow x \<le> rw \<and> rw \<le> endRow x)"
    proof (intro allI impI)
      fix rw assume rw: "1 \<le> rw \<and> rw \<le> ?mr \<and> columnCount (A rw) \<noteq> 0"
      then have "rw < ?N" by simp
      with rw cov have "(\<exists>x \<in> set (blocks st). startRow x \<le> rw \<and> rw \<le> endRow x) \<or>
          blockStartRow st \<le> rw" by blast
      then show "\<exists>x \<in> set (blocks st @ [b]). startRow x \<le> rw \<and> rw \<le> endRow x"
        using b(3,4) N rw by auto
    qed
    from res 1 2 3 4 show ?thesis by blast
  qed
qed


lemma block_ok_rows:
  assumes "block_ok A b" and "\<And>rw. row (A rw) = rw"
  shows "rows b \<noteq> []" and "map row (rows b) = [startRow b..endRow b]"
    and "\<forall>x \<in> set (rows b). 1 \<le> columnCount x"
    and "maxColumnCount b = Max (set (map columnCount (rows b)))"
    and "1 \<le> startRow b" and "startRow b \<le> endRow b"
proof -
  from assms(1) have r: "rows b = map A [startRow b..endRow b]"
    and le: "startRow b \<le> endRow b"
    and occ: "\<forall>rw \<in> {startRow b..endRow b}. columnCount (A rw) \<noteq> 0"
    by (simp_all add: block_ok_def)
  from le show "rows b \<noteq> []" by (simp add: r)
  show "map row (rows b) = [startRow b..endRow b]"
    by (simp add: r assms(2) comp_def)
  show "\<forall>x \<in> set (rows b). 1 \<le> columnCount x"
    using occ by (auto simp: r Suc_le_eq)
  show "maxColumnCount b = Max (set (map columnCount (rows b)))"
    and "1 \<le> startRow b" and "startRow b \<le> endRow b"
    using assms(1) unfolding block_ok_def by blast+
qed

text \<open>
  C1. For every sheet and label column \<open>detectTableBlocks\<close> returns a sequence of
  blocks, and: every block has at least one row, its rows carry the row numbers
  \<open>startRow .. endRow\<close> once each in increasing order, every member row has
  \<open>columnCount \<ge> 1\<close>, and \<open>maxColumnCount\<close> is the maximum \<open>columnCount\<close> over its
  rows; every occupied row among the rows \<open>1 .. maxRow\<close> belongs to exactly one block;
  after each block but the last comes a row inside \<open>1 .. maxRow\<close> that is not occupied,
  before the next block starts; and the blocks are in strictly increasing row order.
\<close>

theorem detectTableBlocks_blocks:
  "\<exists>bs. detectTableBlocks sheet lc = Inr bs \<and>
     (\<forall>b \<in> set bs.
        rows b \<noteq> [] \<and> map row (rows b) = [startRow b..endRow b] \<and>
        (\<forall>x \<in> set (rows b). 1 \<le> columnCount x) \<and>
        maxColumnCount b = Max (set (map columnCount (rows b)))) \<and>
     (\<forall>rw \<in> {1..sheet_maxRow sheet}. row_occupied sheet rw \<longrightarrow>
        (\<exists>!i. i < length bs \<and> rw \<in> set (map row (rows (bs ! i))))) \<and>
     (\<forall>i. Suc i < length bs \<longrightarrow>
        endRow (bs ! i) + 1 < startRow (bs ! Suc i) \<and>
        endRow (bs ! i) + 1 \<in> {1..sheet_maxRow sheet} \<and>
        \<not> row_occupied sheet (endRow (bs ! i) + 1)) \<and>
     (\<forall>i j. i < j \<and> j < length bs \<longrightarrow> endRow (bs ! i) < startRow (bs ! j))"
proof -
  let ?A = "\<lambda>rw. analyzeRow sheet rw (sheet_maxCol sheet) lc"
  let ?mr = "sheet_maxRow sheet"
  from detectTableBlocks_sound [of sheet lc]
  obtain bs where res: "detectTableBlocks sheet lc = Inr bs"
    and ok: "\<forall>b \<in> set bs. block_ok ?A b \<and> endRow b \<le> ?mr"
    and srt: "sorted_wrt (\<lambda>a b. endRow a + 1 < startRow b) bs"
    and gap: "\<forall>i. Suc i < length bs \<longrightarrow> columnCount (?A (endRow (bs ! i) + 1)) = 0 \<and>
                endRow (bs ! i) + 1 \<le> ?mr"
    and cov: "\<forall>rw. 1 \<le> rw \<and> rw \<le> ?mr \<and> columnCount (?A rw) \<noteq> 0 \<longrightarrow>
                (\<exists>b \<in> set bs. startRow b \<le> rw \<and> rw \<le> endRow b)"
    by blast
  have rowA: "\<And>rw. row (?A rw) = rw" by simp
  have okn: "\<And>i. i < length bs \<Longrightarrow> block_ok ?A (bs ! i)"
    using ok by simp
  have mem: "\<And>i rw. i < length bs \<Longrightarrow>
      rw \<in> set (map row (rows (bs ! i))) \<longleftrightarrow> startRow (bs ! i) \<le> rw \<and> rw \<le> endRow (bs ! i)"
    using block_ok_rows(2) [OF okn rowA] by simp
  have lt: "\<And>i j. i < j \<Longrightarrow> j < length bs \<Longrightarrow> endRow (bs ! i) + 1 < startRow (bs ! j)"
    using srt by (simp add: sorted_wrt_iff_nth_less)
  have 1: "\<forall>b \<in> set bs.
        rows b \<noteq> [] \<and> map row (rows b) = [startRow b..endRow b] \<and>
        (\<forall>x \<in> set (rows b). 1 \<le> columnCount x) \<and>
        maxColumnCount b = Max (set (map columnCount (rows b)))"
  proof
    fix b assume "b \<in> set bs"
    with ok have b: "block_ok ?A b" by simp
    from block_ok_rows(1-4) [OF b rowA]
    show "rows b \<noteq> [] \<and> map row (rows b) = [startRow b..endRow b] \<and>
        (\<forall>x \<in> set (rows b). 1 \<le> columnCount x) \<and>
        maxColumnCount b = Max (set (map columnCount (rows b)))"
      by blast
  qed
  have 2: "\<forall>rw \<in> {1..?mr}. row_occupied sheet rw \<longrightarrow>
        (\<exists>!i. i < length bs \<and> rw \<in> set (map row (rows (bs ! i))))"
  proof (intro ballI impI)
    fix rw assume rw: "rw \<in> {1..?mr}" and occ: "row_occupied sheet rw"
    from occ have "columnCount (?A rw) \<noteq> 0" by (simp add: columnCount_zero_iff)
    with rw cov obtain b where "b \<in> set bs" "startRow b \<le> rw" "rw \<le> endRow b"
      by auto
    then obtain i where i: "i < length bs" "startRow (bs ! i) \<le> rw" "rw \<le> endRow (bs ! i)"
      by (auto simp: in_set_conv_nth)
    show "\<exists>!i. i < length bs \<and> rw \<in> set (map row (rows (bs ! i)))"
    proof (rule ex1I [of _ i])
      show "i < length bs \<and> rw \<in> set (map row (rows (bs ! i)))"
        using i mem [of i rw] by blast
    next
      fix j assume j: "j < length bs \<and> rw \<in> set (map row (rows (bs ! j)))"
      then have jr: "startRow (bs ! j) \<le> rw" "rw \<le> endRow (bs ! j)"
        using mem [of j rw] by blast+
      show "j = i"
      proof (rule ccontr)
        assume "j \<noteq> i"
        then consider "i < j" | "j < i" by linarith
        then show False
        proof cases
          case 1
          from lt [OF 1] j i jr show False by simp
        next
          case 2
          from lt [OF 2 i(1)] i jr show False by simp
        qed
      qed
    qed
  qed
  have 3: "\<forall>i. Suc i < length bs \<longrightarrow>
        endRow (bs ! i) + 1 < startRow (bs ! Suc i) \<and>
        endRow (bs ! i) + 1 \<in> {1..?mr} \<and>
        \<not> row_occupied sheet (endRow (bs ! i) + 1)"
  proof (intro allI impI)
    fix i assume i: "Suc i < length bs"
    then have "i < length bs" by simp
    from block_ok_rows(5,6) [OF okn [OF this] rowA]
    have "1 \<le> endRow (bs ! i) + 1" by simp
    moreover from gap i have "columnCount (?A (endRow (bs ! i) + 1)) = 0"
      and "endRow (bs ! i) + 1 \<le> ?mr" by simp_all
    moreover have "endRow (bs ! i) + 1 < startRow (bs ! Suc i)"
      using lt [of i "Suc i"] i by simp
    ultimately show "endRow (bs ! i) + 1 < startRow (bs ! Suc i) \<and>
        endRow (bs ! i) + 1 \<in> {1..?mr} \<and>
        \<not> row_occupied sheet (endRow (bs ! i) + 1)"
      by (simp add: columnCount_zero_iff)
  qed
  have 4: "\<forall>i j. i < j \<and> j < length bs \<longrightarrow> endRow (bs ! i) < startRow (bs ! j)"
    using lt by fastforce
  from res 1 2 3 4 show ?thesis by blast
qed

theorem detectTableBlocks_blocks_witness:
  "detectTableBlocks ex_sheet ''A'' = Inr [ex_block, ex_block2] \<and>
   map row (rows ex_block) = [startRow ex_block..endRow ex_block] \<and>
   maxColumnCount ex_block = Max (set (map columnCount (rows ex_block))) \<and>
   endRow ex_block + 1 < startRow ex_block2 \<and>
   \<not> row_occupied ex_sheet (endRow ex_block + 1)"
proof -
  have e: "detectTableBlocks ex_sheet ''A'' = Inr [ex_block, ex_block2]"
    by code_simp
  from detectTableBlocks_blocks [of ex_sheet "''A''"] e
  have 1: "\<forall>b \<in> set [ex_block, ex_block2].
        rows b \<noteq> [] \<and> map row (rows b) = [startRow b..endRow b] \<and>
        (\<forall>x \<in> set (rows b). 1 \<le> columnCount x) \<and>
        maxColumnCount b = Max (set (map columnCount (rows b)))"
    and 3: "\<forall>i. Suc i < length [ex_block, ex_block2] \<longrightarrow>
        endRow ([ex_block, ex_block2] ! i) + 1 < startRow ([ex_block, ex_block2] ! Suc i) \<and>
        endRow ([ex_block, ex_block2] ! i) + 1 \<in> {1..sheet_maxRow ex_sheet} \<and>
        \<not> row_occupied ex_sheet (endRow ([ex_block, ex_block2] ! i) + 1)"
    by auto
  from 1 have "map row (rows ex_block) = [startRow ex_block..endRow ex_block]"
    and "maxColumnCount ex_block = Max (set (map columnCount (rows ex_block)))"
    by simp_all
  moreover from 3 [rule_format, of 0]
  have "endRow ex_block + 1 < startRow ex_block2"
    and "\<not> row_occupied ex_sheet (endRow ex_block + 1)"
    by simp_all
  ultimately show ?thesis using e by blast
qed

lemma int_range_1_2: "{1..2::int} = {1, 2}"
  by auto

lemma int_range_0_2: "{0..<2::int} = {0, 1}"
  by auto

lemma int_range_1_1: "{1..1::int} = {1}"
  by auto

lemma int_range_0_1: "{0..<1::int} = {0}"
  by auto

lemma no_counts_no_blocks:
  assumes "\<forall>rw. 1 \<le> rw \<and> rw \<le> sheet_maxRow sheet \<longrightarrow>
             columnCount (analyzeRow sheet rw (sheet_maxCol sheet) lc) = 0"
  shows "detectTableBlocks sheet lc = Inr []"
proof -
  let ?A = "\<lambda>rw. analyzeRow sheet rw (sheet_maxCol sheet) lc"
  from detectTableBlocks_sound [of sheet lc]
  obtain bs where res: "detectTableBlocks sheet lc = Inr bs"
    and ok: "\<forall>b \<in> set bs. block_ok ?A b \<and> endRow b \<le> sheet_maxRow sheet"
    by blast
  have "bs = []"
  proof (rule ccontr)
    assume "bs \<noteq> []"
    then obtain b where b: "b \<in> set bs" by (cases bs) auto
    with ok have "1 \<le> startRow b" "startRow b \<le> endRow b" "endRow b \<le> sheet_maxRow sheet"
      "columnCount (?A (startRow b)) \<noteq> 0"
      by (auto simp: block_ok_def)
    with assms show False by auto
  qed
  with res show ?thesis by simp
qed

text \<open>
  C6. For every sheet in which no row among \<open>1 .. maxRow\<close> has an occupied column
  among \<open>0 .. maxCol - 1\<close>, \<open>detectTableBlocks\<close> returns the empty sequence; it does not
  raise.
\<close>

theorem detectTableBlocks_empty:
  assumes "\<forall>rw \<in> {1..sheet_maxRow sheet}. \<not> row_occupied sheet rw"
  shows "detectTableBlocks sheet lc = Inr []"
  using assms by (intro no_counts_no_blocks) (simp add: columnCount_zero_iff)

theorem detectTableBlocks_empty_witness:
  "sheet_maxRow ex_blank_sheet = 2 \<and> sheet_maxCol ex_blank_sheet = 2 \<and>
   \<not> row_occupied ex_blank_sheet 1 \<and> \<not> row_occupied ex_blank_sheet 2 \<and>
   occupied (cells ex_blank_sheet ''C1'') \<and>
   detectTableBlocks ex_blank_sheet ''A'' = Inr []"
proof -
  have mr: "sheet_maxRow ex_blank_sheet = 2" and mc: "sheet_maxCol ex_blank_sheet = 2"
    by code_simp+
  have enc: "encode_cell 0 0 = ''A1''" "encode_cell 0 1 = ''B1''"
    "encode_cell 1 0 = ''A2''" "encode_cell 1 1 = ''B2''"
    by code_simp+
  have r1: "\<not> row_occupied ex_blank_sheet 1" and r2: "\<not> row_occupied ex_blank_sheet 2"
    by (simp_all add: row_occupied_def mc int_range_0_2 enc)
       (simp_all add: ex_blank_sheet_def occupied_def)
  have h: "\<forall>rw \<in> {1..sheet_maxRow ex_blank_sheet}. \<not> row_occupied ex_blank_sheet rw"
    using r1 r2 by (simp add: mr int_range_1_2)
  have "occupied (cells ex_blank_sheet ''C1'')"
    by (simp add: ex_blank_sheet_def occupied_def)
  with detectTableBlocks_empty [OF h, of "''A''"] mr mc r1 r2 show ?thesis by simp
qed

lemma analyzeRow_cong:
  assumes "\<forall>cl \<in> {0..<mc}. cells sh1 (encode_cell (rw - 1) cl) = cells sh2 (encode_cell (rw - 1) cl)"
    and "cells sh1 (lc @ num_str rw) = cells sh2 (lc @ num_str rw)"
  shows "analyzeRow sh1 rw mc lc = analyzeRow sh2 rw mc lc"
proof -
  have "filter (\<lambda>c. occupied (cells sh1 (encode_cell (rw - 1) c))) [0..mc - 1] =
        filter (\<lambda>c. occupied (cells sh2 (encode_cell (rw - 1) c))) [0..mc - 1]"
    using assms(1) by (intro filter_cong) auto
  then show ?thesis
    using assms(2) by (simp add: analyzeRow_def countColumns_eq)
qed

lemma scan_rows_cong:
  "(\<forall>rw. n \<le> rw \<and> rw \<le> mr \<longrightarrow> analyzeRow sh1 rw mc lc = analyzeRow sh2 rw mc lc) \<Longrightarrow>
   scan_rows sh1 mr mc lc n st = scan_rows sh2 mr mc lc n st"
proof (induction sh1 mr mc lc n st rule: scan_rows.induct)
  case (1 sh1 mr mc lc n st)
  show ?case
  proof (cases "n \<le> mr")
    case True
    with "1.prems" have s: "scan_step sh1 mc lc n st = scan_step sh2 mc lc n st"
      by (simp add: scan_step_def)
    show ?thesis
    proof (cases "scan_step sh1 mc lc n st")
      case (Inl err)
      moreover from s Inl have "scan_step sh2 mc lc n st = Inl err" by simp
      ultimately show ?thesis
        using True
        by (simp add: scan_rows.simps [of sh1 mr mc lc n st]
            scan_rows.simps [of sh2 mr mc lc n st])
    next
      case (Inr st')
      from "1.prems" have "\<forall>rw. n + 1 \<le> rw \<and> rw \<le> mr \<longrightarrow>
          analyzeRow sh1 rw mc lc = analyzeRow sh2 rw mc lc" by simp
      from "1.IH" [OF True Inr this]
      have "scan_rows sh1 mr mc lc (n + 1) st' = scan_rows sh2 mr mc lc (n + 1) st'" .
      moreover from s Inr have "scan_step sh2 mc lc n st = Inr st'" by simp
      ultimately show ?thesis
        using True Inr
        by (simp add: scan_rows.simps [of sh1 mr mc lc n st]
            scan_rows.simps [of sh2 mr mc lc n st])
    qed
  next
    case False
    then show ?thesis
      by (simp add: scan_rows.simps [of sh1 mr mc lc n st]
          scan_rows.simps [of sh2 mr mc lc n st])
  qed
qed

lemma sheet_bounds_cong:
  "ref sh1 = ref sh2 \<Longrightarrow> sheet_maxRow sh1 = sheet_maxRow sh2 \<and> sheet_maxCol sh1 = sheet_maxCol sh2"
  by (simp add: sheet_maxRow_def sheet_maxCol_def sheet_range_def)

lemma detectTableBlocks_cong:
  assumes "ref sh1 = ref sh2"
    and "\<forall>rw. 1 \<le> rw \<and> rw \<le> sheet_maxRow sh1 \<longrightarrow>
           analyzeRow sh1 rw (sheet_maxCol sh1) lc = analyzeRow sh2 rw (sheet_maxCol sh1) lc"
  shows "detectTableBlocks sh1 lc = detectTableBlocks sh2 lc"
  using sheet_bounds_cong [OF assms(1)] scan_rows_cong [OF assms(2)]
  by (simp add: detectTableBlocks_def)

lemma label_A: "''A'' @ num_str rw = encode_cell (rw - 1) 0"
proof -
  have "char_of (65::nat) = CHR ''A''" by code_simp
  then show ?thesis by (simp add: encode_cell_def encode_col_loop.simps)
qed

text \<open>
  C8 (amended). For any two sheets that declare the same reference range and agree on
  every cell of the rows \<open>1 .. maxRow\<close> and columns \<open>0 .. maxCol - 1\<close> (the rectangle
  from \<open>A1\<close> to the end corner of the range): if they also agree on the label-column
  cells of the rows \<open>1 .. maxRow\<close>, \<open>detectTableBlocks\<close> returns the same result on
  both; with the default label column \<open>A\<close> it does so without that further condition.
\<close>

theorem detectTableBlocks_extent:
  assumes "ref sh1 = ref sh2"
    and "\<forall>rw \<in> {1..sheet_maxRow sh1}. \<forall>cl \<in> {0..<sheet_maxCol sh1}.
           cells sh1 (encode_cell (rw - 1) cl) = cells sh2 (encode_cell (rw - 1) cl)"
  shows "((\<forall>rw \<in> {1..sheet_maxRow sh1}. cells sh1 (lc @ num_str rw) = cells sh2 (lc @ num_str rw))
            \<longrightarrow> detectTableBlocks sh1 lc = detectTableBlocks sh2 lc) \<and>
         detectTableBlocks sh1 ''A'' = detectTableBlocks sh2 ''A''"
proof
  show "(\<forall>rw \<in> {1..sheet_maxRow sh1}. cells sh1 (lc @ num_str rw) = cells sh2 (lc @ num_str rw))
            \<longrightarrow> detectTableBlocks sh1 lc = detectTableBlocks sh2 lc"
  proof
    assume l: "\<forall>rw \<in> {1..sheet_maxRow sh1}. cells sh1 (lc @ num_str rw) = cells sh2 (lc @ num_str rw)"
    show "detectTableBlocks sh1 lc = detectTableBlocks sh2 lc"
      using assms l by (intro detectTableBlocks_cong allI impI analyzeRow_cong) auto
  qed
next
  show "detectTableBlocks sh1 ''A'' = detectTableBlocks sh2 ''A''"
  proof (cases "0 < sheet_maxCol sh1")
    case True
    then have "\<forall>rw \<in> {1..sheet_maxRow sh1}.
        cells sh1 (''A'' @ num_str rw) = cells sh2 (''A'' @ num_str rw)"
      using assms(2) by (simp add: label_A del: append.simps)
    then show ?thesis
      using assms by (intro detectTableBlocks_cong allI impI analyzeRow_cong) auto
  next
    case False
    then have z: "\<And>sh rw. countColumns sh rw (sheet_maxCol sh1) 0 0 = 0"
      by (simp add: countColumns_eq)
    have "detectTableBlocks sh1 ''A'' = Inr []"
      using z by (intro no_counts_no_blocks) (simp add: analyzeRow_def)
    moreover have "detectTableBlocks sh2 ''A'' = Inr []"
      using z sheet_bounds_cong [OF assms(1)]
      by (intro no_counts_no_blocks) (simp add: analyzeRow_def)
    ultimately show ?thesis by simp
  qed
qed

theorem detectTableBlocks_extent_witness:
  "ref cx_label_col_sheet1 = ref cx_label_col_sheet2 \<and>
   cells cx_label_col_sheet1 ''B1'' \<noteq> cells cx_label_col_sheet2 ''B1'' \<and>
   detectTableBlocks cx_label_col_sheet1 ''A'' = detectTableBlocks cx_label_col_sheet2 ''A''"
proof -
  have r: "ref cx_label_col_sheet1 = ref cx_label_col_sheet2"
    by (simp add: cx_label_col_sheet1_def cx_label_col_sheet2_def)
  have mr: "sheet_maxRow cx_label_col_sheet1 = 1" and mc: "sheet_maxCol cx_label_col_sheet1 = 1"
    by code_simp+
  have enc: "encode_cell 0 0 = ''A1''" by code_simp
  have c: "\<forall>rw \<in> {1..sheet_maxRow cx_label_col_sheet1}.
           \<forall>cl \<in> {0..<sheet_maxCol cx_label_col_sheet1}.
             cells cx_label_col_sheet1 (encode_cell (rw - 1) cl) =
             cells cx_label_col_sheet2 (encode_cell (rw - 1) cl)"
    by (simp add: mr mc int_range_1_1 int_range_0_1 enc)
       (simp add: cx_label_col_sheet1_def cx_label_col_sheet2_def)
  have "cells cx_label_col_sheet1 ''B1'' \<noteq> cells cx_label_col_sheet2 ''B1''"
    by (simp add: cx_label_col_sheet1_def cx_label_col_sheet2_def)
  with detectTableBlocks_extent [OF r c] r show ?thesis by blast
qed

text \<open>
  C8 as stated fails twice. Two sheets that declare \<open>B1:B1\<close> and agree on \<open>B1\<close> get
  different counts, since column A is scanned although it lies outside the declared
  range. Two sheets that declare \<open>A1:A1\<close> and agree on \<open>A1\<close> get different labels for
  the label column \<open>B\<close>, whose cell is read although it lies outside the range.
\<close>

theorem detectTableBlocks_extent_counterexample:
  "ref cx_range_sheet1 = ref cx_range_sheet2 \<and>
   sheet_range cx_range_sheet1 = ((0, 1), (0, 1)) \<and>
   cells cx_range_sheet1 (encode_cell 0 1) = cells cx_range_sheet2 (encode_cell 0 1) \<and>
   detectTableBlocks cx_range_sheet1 ''A'' =
     Inr [\<lparr>startRow = 1, endRow = 1,
           rows = [\<lparr>row = 1, columnCount = 1, labelValue = None\<rparr>],
           maxColumnCount = 1\<rparr>] \<and>
   detectTableBlocks cx_range_sheet2 ''A'' =
     Inr [\<lparr>startRow = 1, endRow = 1,
           rows = [\<lparr>row = 1, columnCount = 2, labelValue = Some ''y''\<rparr>],
           maxColumnCount = 2\<rparr>] \<and>
   ref cx_label_col_sheet1 = ref cx_label_col_sheet2 \<and>
   sheet_range cx_label_col_sheet1 = ((0, 0), (0, 0)) \<and>
   cells cx_label_col_sheet1 (encode_cell 0 0) = cells cx_label_col_sheet2 (encode_cell 0 0) \<and>
   detectTableBlocks cx_label_col_sheet1 ''B'' =
     Inr [\<lparr>startRow = 1, endRow = 1,
           rows = [\<lparr>row = 1, columnCount = 1, labelValue = None\<rparr>],
           maxColumnCount = 1\<rparr>] \<and>
   detectTableBlocks cx_label_col_sheet2 ''B'' =
     Inr [\<lparr>startRow = 1, endRow = 1,
           rows = [\<lparr>row = 1, columnCount = 1, labelValue = Some ''y''\<rparr>],
           maxColumnCount = 1\<rparr>]"
  by code_simp

section \<open>Title row\<close>

lemma detectTitleRow_total: "rows block \<noteq> [] \<Longrightarrow> \<exists>t. detectTitleRow block = Inr t"
  by (cases "rows block") (auto simp: detectTitleRow_def)

lemma detectTitleRow_Some:
  "detectTitleRow block = Inr (Some t) \<Longrightarrow> rows block \<noteq> [] \<and> t = hd (rows block)"
  by (cases "rows block") (auto simp: detectTitleRow_def split: if_splits)

text \<open>
  C2 (amended). For every block with at least one row, \<open>detectTitleRow\<close> returns the
  first row if and only if that row's \<open>columnCount\<close> is strictly less than the block's
  \<open>maxColumnCount\<close>, and returns absent otherwise; in particular it returns absent for
  every single-row block whose \<open>maxColumnCount\<close> is the maximum \<open>columnCount\<close> over its
  rows.
\<close>

theorem detectTitleRow_rule:
  assumes "rows block \<noteq> []"
  shows "(detectTitleRow block = Inr (Some (rows block ! 0)) \<longleftrightarrow>
            columnCount (rows block ! 0) < maxColumnCount block) \<and>
         (\<not> columnCount (rows block ! 0) < maxColumnCount block \<longrightarrow>
            detectTitleRow block = Inr None) \<and>
         (length (rows block) = 1 \<and>
          maxColumnCount block = Max (set (map columnCount (rows block))) \<longrightarrow>
            detectTitleRow block = Inr None)"
  using assms
  by (cases "rows block") (auto simp: detectTitleRow_def)

theorem detectTitleRow_rule_witness:
  "rows ex_block \<noteq> [] \<and> columnCount (rows ex_block ! 0) < maxColumnCount ex_block \<and>
   detectTitleRow ex_block = Inr (Some (rows ex_block ! 0)) \<and>
   length (rows (ex_block\<lparr>rows := [rows ex_block ! 1]\<rparr>)) = 1 \<and>
   detectTitleRow (ex_block\<lparr>rows := [rows ex_block ! 1]\<rparr>) = Inr None"
  using detectTitleRow_rule [of ex_block]
    detectTitleRow_rule [of "ex_block\<lparr>rows := [rows ex_block ! 1]\<rparr>"]
  by (simp add: ex_block_def)

text \<open>
  The single-row part of C2 as stated, for every single-row block, fails on a block
  whose \<open>maxColumnCount\<close> field exceeds the count of its only row.
\<close>

theorem detectTitleRow_single_row_counterexample:
  "rows cx_title_block \<noteq> [] \<and> length (rows cx_title_block) = 1 \<and>
   detectTitleRow cx_title_block = Inr (Some (rows cx_title_block ! 0)) \<and>
   detectTitleRow cx_title_block \<noteq> Inr None"
  by (simp add: cx_title_block_def detectTitleRow_def)

section \<open>Header row\<close>

lemma find_first:
  "i < length xs \<Longrightarrow> P (xs ! i) \<Longrightarrow> (\<forall>j<i. \<not> P (xs ! j)) \<Longrightarrow> find P xs = Some (xs ! i)"
proof (induction xs arbitrary: i)
  case Nil
  then show ?case by simp
next
  case (Cons x xs)
  show ?case
  proof (cases i)
    case 0
    with Cons.prems show ?thesis by simp
  next
    case (Suc k)
    with Cons.prems have "\<not> P x" by auto
    moreover have "find P xs = Some (xs ! k)"
      using Cons.prems Suc by (intro Cons.IH) auto
    ultimately show ?thesis using Suc by simp
  qed
qed

lemma candidateRows_code:
  "detectTitleRow block = Inr t \<Longrightarrow>
   candidateRows block = (if t \<noteq> None then drop 1 (rows block) else rows block)"
  by (cases "rows block")
     (auto simp: candidateRows_def detectTitleRow_def drop_Suc split: if_splits)
lemma truthy_matches:
  "(truthy (labelValue r) \<and> pat (the (labelValue r))) = label_matches pat r"
  by (auto simp: truthy_def label_matches_def split: option.splits)
lemma detectHeaderRow_total:
  "rows block \<noteq> [] \<Longrightarrow> \<exists>h. detectHeaderRow block options = Inr h"
  by (cases "rows block")
     (auto simp: detectHeaderRow_def detectTitleRow_def Let_def split: option.splits)

lemma detectHeaderRow_Some:
  assumes "detectHeaderRow block options = Inr (Some h)" and "detectTitleRow block = Inr t"
  shows "h \<in> set (if t \<noteq> None then drop 1 (rows block) else rows block)"
proof -
  let ?cands = "if t \<noteq> None then drop 1 (rows block) else rows block"
  from assms have ne: "?cands \<noteq> []"
    by (auto simp: detectHeaderRow_def Let_def split: if_splits)
  from assms have "h = hd ?cands \<or> (\<exists>P. find P ?cands = Some h)"
    by (auto simp: detectHeaderRow_def Let_def split: if_splits option.splits)
  then show ?thesis
  proof
    assume "h = hd ?cands"
    with ne show ?thesis by (metis hd_in_set)
  next
    assume "\<exists>P. find P ?cands = Some h"
    then show ?thesis by (metis find_Some_iff nth_mem)
  qed
qed

text \<open>
  C3 (amended). \<open>detectHeaderRow\<close> returns absent whenever \<open>noHeader\<close> is true, for
  every block and pattern. Otherwise, for every block with at least one row, with the
  candidate rows being the block's rows without the detected title row: it returns
  absent when there is no candidate row; it returns the first candidate row whose
  \<open>labelValue\<close> is defined, is not the empty string and matches \<open>headerPattern\<close>, when
  a pattern is supplied and such a row exists; and it returns the first candidate row
  when no pattern is supplied or no candidate row matches in that sense.
\<close>

theorem detectHeaderRow_rule:
  "(noHeader options = Some True \<longrightarrow> detectHeaderRow block options = Inr None) \<and>
   (noHeader options \<noteq> Some True \<and> rows block \<noteq> [] \<longrightarrow>
      (candidateRows block = [] \<longrightarrow> detectHeaderRow block options = Inr None) \<and>
      (\<forall>pat i. headerPattern options = Some pat \<and> i < length (candidateRows block) \<and>
           label_matches pat (candidateRows block ! i) \<and>
           (\<forall>j<i. \<not> label_matches pat (candidateRows block ! j)) \<longrightarrow>
           detectHeaderRow block options = Inr (Some (candidateRows block ! i))) \<and>
      (candidateRows block \<noteq> [] \<and>
       (headerPattern options = None \<or>
        (\<exists>pat. headerPattern options = Some pat \<and>
               (\<forall>r \<in> set (candidateRows block). \<not> label_matches pat r))) \<longrightarrow>
           detectHeaderRow block options = Inr (Some (candidateRows block ! 0))))"
proof (intro conjI impI allI)
  assume "noHeader options = Some True"
  then show "detectHeaderRow block options = Inr None"
    by (simp add: detectHeaderRow_def)
next
  assume a: "noHeader options \<noteq> Some True \<and> rows block \<noteq> []" and e: "candidateRows block = []"
  from a obtain t where t: "detectTitleRow block = Inr t"
    using detectTitleRow_total by blast
  show "detectHeaderRow block options = Inr None"
    using a e t candidateRows_code [OF t] by (simp add: detectHeaderRow_def)
next
  fix pat i
  assume a: "noHeader options \<noteq> Some True \<and> rows block \<noteq> []"
    and m: "headerPattern options = Some pat \<and> i < length (candidateRows block) \<and>
           label_matches pat (candidateRows block ! i) \<and>
           (\<forall>j<i. \<not> label_matches pat (candidateRows block ! j))"
  from a obtain t where t: "detectTitleRow block = Inr t"
    using detectTitleRow_total by blast
  from m have f: "find (label_matches pat) (candidateRows block) = Some (candidateRows block ! i)"
    by (intro find_first) auto
  from m have ne: "candidateRows block \<noteq> []" by auto
  show "detectHeaderRow block options = Inr (Some (candidateRows block ! i))"
    using a m t f ne candidateRows_code [OF t]
    by (simp add: detectHeaderRow_def truthy_matches Let_def)
next
  assume a: "noHeader options \<noteq> Some True \<and> rows block \<noteq> []"
    and m: "candidateRows block \<noteq> [] \<and>
       (headerPattern options = None \<or>
        (\<exists>pat. headerPattern options = Some pat \<and>
               (\<forall>r \<in> set (candidateRows block). \<not> label_matches pat r)))"
  from a obtain t where t: "detectTitleRow block = Inr t"
    using detectTitleRow_total by blast
  from m have ne: "candidateRows block \<noteq> []" by simp
  from m consider "headerPattern options = None"
    | pat where "headerPattern options = Some pat"
      "\<forall>r \<in> set (candidateRows block). \<not> label_matches pat r"
    by auto
  then show "detectHeaderRow block options = Inr (Some (candidateRows block ! 0))"
  proof cases
    case 1
    then show ?thesis
      using a t ne candidateRows_code [OF t]
      by (simp add: detectHeaderRow_def Let_def hd_conv_nth)
  next
    case 2
    then have "find (label_matches pat) (candidateRows block) = None"
      by (simp add: find_None_iff)
    then show ?thesis
      using a t ne 2 candidateRows_code [OF t]
      by (simp add: detectHeaderRow_def truthy_matches Let_def hd_conv_nth)
  qed
qed
theorem detectHeaderRow_rule_witness:
  "noHeader \<lparr>headerPattern = Some (\<lambda>s. s = ''h''), noHeader = None\<rparr> \<noteq> Some True \<and>
   rows ex_block \<noteq> [] \<and>
   candidateRows ex_block = [rows ex_block ! 1] \<and>
   label_matches (\<lambda>s. s = ''h'') (candidateRows ex_block ! 0) \<and>
   detectHeaderRow ex_block \<lparr>headerPattern = Some (\<lambda>s. s = ''h''), noHeader = None\<rparr> =
     Inr (Some (rows ex_block ! 1)) \<and>
   detectHeaderRow ex_block \<lparr>headerPattern = None, noHeader = Some True\<rparr> = Inr None"
proof -
  have c: "candidateRows ex_block = [rows ex_block ! 1]"
    by (simp add: candidateRows_def detectTitleRow_def ex_block_def)
  have m: "label_matches (\<lambda>s. s = ''h'') (candidateRows ex_block ! 0)"
    by (simp add: c) (simp add: label_matches_def ex_block_def)
  have "detectHeaderRow ex_block \<lparr>headerPattern = Some (\<lambda>s. s = ''h''), noHeader = None\<rparr> =
     Inr (Some (candidateRows ex_block ! 0))"
    using detectHeaderRow_rule
      [of "\<lparr>headerPattern = Some (\<lambda>s. s = ''h''), noHeader = None\<rparr>" ex_block] m c
    by (simp add: ex_block_def)
  moreover have "detectHeaderRow ex_block \<lparr>headerPattern = None, noHeader = Some True\<rparr> = Inr None"
    using detectHeaderRow_rule [of "\<lparr>headerPattern = None, noHeader = Some True\<rparr>" ex_block]
    by simp
  ultimately show ?thesis using c m by (simp add: ex_block_def)
qed

text \<open>
  C3 as stated fails twice. On the block of a sheet whose first label is a single space
  the first row has the defined label \<open>""\<close>, which the pattern matches, and the
  second row is returned. On a block without rows, with \<open>noHeader\<close> unset, the function
  raises instead of returning absent.
\<close>

theorem detectHeaderRow_counterexample:
  "detectTableBlocks cx_header_sheet ''A'' = Inr [cx_header_block] \<and>
   detectTitleRow cx_header_block = Inr None \<and>
   labelValue (rows cx_header_block ! 0) = Some [] \<and> match_all [] \<and>
   detectHeaderRow cx_header_block \<lparr>headerPattern = Some match_all, noHeader = None\<rparr> =
     Inr (Some (rows cx_header_block ! 1)) \<and>
   rows cx_header_block ! 1 \<noteq> rows cx_header_block ! 0 \<and>
   detectHeaderRow cx_empty_block \<lparr>headerPattern = None, noHeader = None\<rparr> = Inl TypeError"
proof -
  have "detectTableBlocks cx_header_sheet ''A'' = Inr [cx_header_block]"
    by code_simp
  then show ?thesis
    by (simp add: cx_header_block_def cx_empty_block_def detectTitleRow_def detectHeaderRow_def
        truthy_def match_all_def)
qed

section \<open>Block structure\<close>

lemma filter_row_neq_remove1:
  "distinct (map row xs) \<Longrightarrow> x \<in> set xs \<Longrightarrow> filter (\<lambda>r. row r \<noteq> row x) xs = remove1 x xs"
proof (induction xs)
  case Nil
  then show ?case by simp
next
  case (Cons y ys)
  show ?case
  proof (cases "y = x")
    case True
    with Cons.prems have "\<forall>r \<in> set ys. row r \<noteq> row x" by (auto simp: image_iff)
    then have "filter (\<lambda>r. row r \<noteq> row x) ys = ys" by (simp add: filter_id_conv)
    with True show ?thesis by simp
  next
    case False
    with Cons.prems have "x \<in> set ys" and "row y \<noteq> row x" by auto
    with Cons False show ?thesis by simp
  qed
qed

lemma length_remove1_Suc: "x \<in> set xs \<Longrightarrow> Suc (length (remove1 x xs)) = length xs"
  using length_pos_if_in_set [of x xs] by (simp add: length_remove1)

text \<open>
  C4 (amended). For every block with at least one row whose rows have pairwise distinct
  row numbers, and every options value, \<open>analyzeBlockStructure\<close> returns a structure
  that partitions the rows: the number of data rows plus one for a title plus one for a
  header is the number of rows; title, header and data rows are pairwise disjoint and
  together are all the rows; and the data rows keep the order of the block.
\<close>

theorem analyzeBlockStructure_partition:
  assumes "distinct (map row (rows block))" and "rows block \<noteq> []"
  shows "\<exists>s. analyzeBlockStructure block options = Inr s \<and>
           Inr (titleRow s) = detectTitleRow block \<and>
           Inr (headerRow s) = detectHeaderRow block options \<and>
           length (dataRows s) + (if titleRow s = None then 0 else 1)
             + (if headerRow s = None then 0 else 1) = length (rows block) \<and>
           (\<forall>t h. titleRow s = Some t \<and> headerRow s = Some h \<longrightarrow> row t \<noteq> row h) \<and>
           (\<forall>t. titleRow s = Some t \<longrightarrow> t \<notin> set (dataRows s)) \<and>
           (\<forall>h. headerRow s = Some h \<longrightarrow> h \<notin> set (dataRows s)) \<and>
           set (rows block) = set (dataRows s) \<union> set_option (titleRow s) \<union> set_option (headerRow s) \<and>
           subseq (dataRows s) (rows block)"
proof -
  from assms obtain t where t: "detectTitleRow block = Inr t"
    using detectTitleRow_total by blast
  from assms obtain h where h: "detectHeaderRow block options = Inr h"
    using detectHeaderRow_total by blast
  define d1 where
    "d1 = (case t of None \<Rightarrow> rows block | Some x \<Rightarrow> filter (\<lambda>r. row r \<noteq> row x) (rows block))"
  define d2 where
    "d2 = (case h of None \<Rightarrow> d1 | Some x \<Rightarrow> filter (\<lambda>r. row r \<noteq> row x) d1)"
  let ?s = "\<lparr>titleRow = t, headerRow = h, dataRows = d2\<rparr>"
  have res: "analyzeBlockStructure block options = Inr ?s"
    unfolding d2_def d1_def by (simp add: analyzeBlockStructure_def t h Let_def)
  have dist: "distinct (rows block)"
    using assms(1) by (rule distinct_map [THEN iffD1, THEN conjunct1])
  have t_in: "set_option t \<subseteq> set (rows block)"
    and t_hd: "\<forall>x. t = Some x \<longrightarrow> rows block = x # drop 1 (rows block)"
    using detectTitleRow_Some [of block] t assms
    by (auto simp: drop_Suc split: option.splits)
  have d1: "d1 = (case t of None \<Rightarrow> rows block | Some x \<Rightarrow> remove1 x (rows block))"
    using t_in assms(1) by (cases t) (simp_all add: d1_def filter_row_neq_remove1)
  have dist1: "distinct (map row d1)"
    using assms(1) by (auto simp: d1_def distinct_map_filter split: option.splits)
  have dist_d1: "distinct d1"
    using dist1 by (rule distinct_map [THEN iffD1, THEN conjunct1])
  have h_in: "set_option h \<subseteq> set d1"
  proof
    fix x assume "x \<in> set_option h"
    then have hx: "h = Some x" by (cases h) simp_all
    from detectHeaderRow_Some [OF h [unfolded hx] t]
    have c: "x \<in> set (if t \<noteq> None then drop 1 (rows block) else rows block)" .
    show "x \<in> set d1"
    proof (cases t)
      case None
      with c show ?thesis by (simp add: d1)
    next
      case (Some y)
      with t_hd have r: "rows block = y # drop 1 (rows block)" by simp
      from c Some have "x \<in> set (drop 1 (rows block))" by simp
      moreover have "remove1 y (rows block) = drop 1 (rows block)"
        by (subst r) simp
      ultimately show ?thesis using Some d1 by simp
    qed
  qed
  have d2: "d2 = (case h of None \<Rightarrow> d1 | Some x \<Rightarrow> remove1 x d1)"
    using h_in dist1 by (cases h) (simp_all add: d2_def filter_row_neq_remove1)
  have len1: "length d1 + (if t = None then 0 else 1) = length (rows block)"
  proof (cases t)
    case None
    then show ?thesis by (simp add: d1)
  next
    case (Some x)
    with t_in have "x \<in> set (rows block)" by simp
    then have "length (remove1 x (rows block)) + 1 = length (rows block)"
      by (simp add: length_remove1_Suc)
    with Some d1 show ?thesis by simp
  qed
  have len2: "length d2 + (if h = None then 0 else 1) = length d1"
  proof (cases h)
    case None
    then show ?thesis by (simp add: d2)
  next
    case (Some x)
    with h_in have "x \<in> set d1" by simp
    then have "length (remove1 x d1) + 1 = length d1"
      by (simp add: length_remove1_Suc)
    with Some d2 show ?thesis by simp
  qed
  have set1: "set (rows block) = set d1 \<union> set_option t"
    using t_in dist by (cases t) (auto simp: d1)
  have set2: "set d1 = set d2 \<union> set_option h"
    using h_in dist_d1 by (cases h) (auto simp: d2)
  have h_out: "\<forall>x. h = Some x \<longrightarrow> x \<notin> set d2"
    using dist_d1 by (auto simp: d2)
  have t_out1: "\<forall>x. t = Some x \<longrightarrow> x \<notin> set d1"
    using dist by (auto simp: d1)
  have t_out: "\<forall>x. t = Some x \<longrightarrow> x \<notin> set d2"
    using t_out1 set2 by auto
  have th: "\<forall>x y. t = Some x \<and> h = Some y \<longrightarrow> row x \<noteq> row y"
    using h_in by (auto simp: d1_def)
  have sub: "subseq d2 (rows block)"
  proof -
    have "subseq d1 (rows block)" by (cases t) (simp_all add: d1_def)
    moreover have "subseq d2 d1" by (cases h) (simp_all add: d2_def)
    ultimately show ?thesis by (meson subseq_order.order_trans)
  qed
  show ?thesis
  proof (intro exI conjI)
    show "analyzeBlockStructure block options = Inr ?s" by (rule res)
    show "Inr (titleRow ?s) = detectTitleRow block" by (simp add: t)
    show "Inr (headerRow ?s) = detectHeaderRow block options" by (simp add: h)
    show "length (dataRows ?s) + (if titleRow ?s = None then 0 else 1)
             + (if headerRow ?s = None then 0 else 1) = length (rows block)"
      using len1 len2 by simp
    show "\<forall>t h. titleRow ?s = Some t \<and> headerRow ?s = Some h \<longrightarrow> row t \<noteq> row h"
      using th by simp
    show "\<forall>t. titleRow ?s = Some t \<longrightarrow> t \<notin> set (dataRows ?s)"
      using t_out by simp
    show "\<forall>h. headerRow ?s = Some h \<longrightarrow> h \<notin> set (dataRows ?s)"
      using h_out by simp
    show "set (rows block) = set (dataRows ?s) \<union> set_option (titleRow ?s) \<union> set_option (headerRow ?s)"
      using set1 set2 by auto
    show "subseq (dataRows ?s) (rows block)"
      using sub by simp
  qed
qed

theorem analyzeBlockStructure_partition_witness:
  "distinct (map row (rows ex_block)) \<and> rows ex_block \<noteq> [] \<and>
   analyzeBlockStructure ex_block \<lparr>headerPattern = None, noHeader = Some True\<rparr> =
     Inr \<lparr>titleRow = Some (rows ex_block ! 0), headerRow = None,
          dataRows = [rows ex_block ! 1]\<rparr> \<and>
   length [rows ex_block ! 1] + 1 + 0 = length (rows ex_block) \<and>
   subseq [rows ex_block ! 1] (rows ex_block)"
proof -
  let ?opts = "\<lparr>headerPattern = None, noHeader = Some True\<rparr>"
  have d: "distinct (map row (rows ex_block))" and n: "rows ex_block \<noteq> []"
    by (simp_all add: ex_block_def)
  have e: "analyzeBlockStructure ex_block ?opts =
     Inr \<lparr>titleRow = Some (rows ex_block ! 0), headerRow = None,
          dataRows = [rows ex_block ! 1]\<rparr>"
    by (simp add: analyzeBlockStructure_def detectTitleRow_def detectHeaderRow_def ex_block_def)
  from analyzeBlockStructure_partition [OF d n, of ?opts] e
  have "length [rows ex_block ! 1] + 1 + 0 = length (rows ex_block)"
    and "subseq [rows ex_block ! 1] (rows ex_block)"
    by auto
  with d n e show ?thesis by blast
qed

text \<open>
  C4 as stated fails on a block without rows (its row numbers are pairwise distinct):
  \<open>analyzeBlockStructure\<close> raises and returns no structure.
\<close>

theorem analyzeBlockStructure_counterexample:
  "distinct (map row (rows cx_empty_block)) \<and>
   analyzeBlockStructure cx_empty_block \<lparr>headerPattern = None, noHeader = None\<rparr> =
     Inl TypeError"
  by (simp add: cx_empty_block_def analyzeBlockStructure_def detectTitleRow_def)

section \<open>Label value\<close>

text \<open>
  C7 (amended). For every sheet, row and label column, the \<open>labelValue\<close> of the row
  descriptor is absent when the sheet has no cell at the label address; when that cell
  holds a defined value, \<open>labelValue\<close> is present: the value trimmed if it is a string
  (the empty string gives the empty label), and the \<open>String\<close> coercion of the value
  otherwise.
\<close>

theorem analyzeRow_labelValue:
  "(cells sheet (labelColumn @ num_str rw) = None \<longrightarrow>
      labelValue (analyzeRow sheet rw maxCl labelColumn) = None) \<and>
   (\<forall>s. cells sheet (labelColumn @ num_str rw) = Some (Cell (Str s)) \<longrightarrow>
      labelValue (analyzeRow sheet rw maxCl labelColumn) = Some (trim s)) \<and>
   (\<forall>s. cells sheet (labelColumn @ num_str rw) = Some (Cell (Other s)) \<longrightarrow>
      labelValue (analyzeRow sheet rw maxCl labelColumn) = Some s)"
  by (auto simp: analyzeRow_def split: option.splits)

text \<open>A label cell that exists without a value gives the text of \<open>String(undefined)\<close>.\<close>

lemma analyzeRow_labelValue_no_value:
  "cells sheet (labelColumn @ num_str rw) = Some (Cell Undefined) \<Longrightarrow>
   labelValue (analyzeRow sheet rw maxCl labelColumn) = Some ''undefined''"
  by (simp add: analyzeRow_def)

lemma num_str_1: "num_str 1 = ''1''"
  by code_simp

lemma num_str_2: "num_str 2 = ''2''"
  by code_simp

theorem analyzeRow_labelValue_witness:
  "cells ex_sheet (''A'' @ num_str 2) = Some (Cell (Str '' h '')) \<and>
   labelValue (analyzeRow ex_sheet 2 3 ''A'') = Some ''h'' \<and>
   cells ex_sheet (''B'' @ num_str 2) = Some (Cell (Other ''2'')) \<and>
   labelValue (analyzeRow ex_sheet 2 3 ''B'') = Some ''2'' \<and>
   cells ex_sheet (''C'' @ num_str 2) = None \<and>
   labelValue (analyzeRow ex_sheet 2 3 ''C'') = None \<and>
   cells ex_nbsp_sheet (''A'' @ num_str 1) = Some (Cell (Str [nbsp, CHR ''h'', nbsp])) \<and>
   labelValue (analyzeRow ex_nbsp_sheet 1 1 ''A'') = Some ''h''"
proof -
  have t: "trim '' h '' = ''h''" by code_simp
  have n: "trim [nbsp, CHR ''h'', nbsp] = ''h''" by code_simp
  have 1: "cells ex_sheet (''A'' @ num_str 2) = Some (Cell (Str '' h ''))"
    and 2: "cells ex_sheet (''B'' @ num_str 2) = Some (Cell (Other ''2''))"
    and 3: "cells ex_sheet (''C'' @ num_str 2) = None"
    by (simp_all add: ex_sheet_def num_str_2)
  have 4: "cells ex_nbsp_sheet (''A'' @ num_str 1) = Some (Cell (Str [nbsp, CHR ''h'', nbsp]))"
    by (simp add: ex_nbsp_sheet_def num_str_1)
  show ?thesis
    using analyzeRow_labelValue [where sheet = ex_sheet and rw = 2 and maxCl = 3
        and labelColumn = "''A''"]
      analyzeRow_labelValue [where sheet = ex_sheet and rw = 2 and maxCl = 3
        and labelColumn = "''B''"]
      analyzeRow_labelValue [where sheet = ex_sheet and rw = 2 and maxCl = 3
        and labelColumn = "''C''"]
      analyzeRow_labelValue [where sheet = ex_nbsp_sheet and rw = 1 and maxCl = 1
        and labelColumn = "''A''"]
      t n 1 2 3 4
    by simp
qed

text \<open>
  C7 as stated fails on a label cell that exists and holds the empty string: the cell is
  not occupied, and the label is the empty string, not absent.
\<close>

theorem analyzeRow_labelValue_counterexample:
  "cells cx_label_sheet (''A'' @ num_str 1) = Some (Cell (Str [])) \<and>
   \<not> occupied (cells cx_label_sheet (''A'' @ num_str 1)) \<and>
   labelValue (analyzeRow cx_label_sheet 1 2 ''A'') = Some [] \<and>
   labelValue (analyzeRow cx_label_sheet 1 2 ''A'') \<noteq> None \<and>
   detectTableBlocks cx_label_sheet ''A'' =
     Inr [\<lparr>startRow = 1, endRow = 1,
           rows = [\<lparr>row = 1, columnCount = 1, labelValue = Some []\<rparr>],
           maxColumnCount = 1\<rparr>]"
proof -
  have "detectTableBlocks cx_label_sheet ''A'' =
     Inr [\<lparr>startRow = 1, endRow = 1,
           rows = [\<lparr>row = 1, columnCount = 1, labelValue = Some []\<rparr>],
           maxColumnCount = 1\<rparr>]"
    by code_simp
  moreover have "trim [] = []" by code_simp
  ultimately show ?thesis
    by (simp add: cx_label_sheet_def num_str_1 occupied_def analyzeRow_def)
qed

section \<open>Loading the first sheet\<close>

text \<open>
  C9. When the parser returns a workbook, \<open>loadSheet\<close> fails with the error
  \<open>Workbook contains no sheets\<close> if and only if the workbook declares no sheet;
  otherwise it returns, without raising, the entry of \<open>Sheets\<close> under the first sheet
  name.
\<close>

theorem loadSheet_rule:
  assumes "xlsx_read dat ty = Inr wb"
  shows "(loadSheet xlsx_read dat ty = Inl (Error ''Workbook contains no sheets'') \<longleftrightarrow>
            declares_no_sheets wb) \<and>
         (\<not> declares_no_sheets wb \<longrightarrow>
            (\<exists>names. SheetNames wb = Some names \<and>
               loadSheet xlsx_read dat ty = Inr (Sheets wb (names ! 0))))"
  using assms
  by (auto simp: loadSheet_def declares_no_sheets_def hd_conv_nth split: option.splits)

theorem loadSheet_rule_witness:
  "(\<lambda>d t. Inr ex_workbook) () () = Inr ex_workbook \<and>
   \<not> declares_no_sheets ex_workbook \<and>
   loadSheet (\<lambda>d t. Inr ex_workbook) () () \<noteq> Inl (Error ''Workbook contains no sheets'') \<and>
   loadSheet (\<lambda>d t. Inr ex_workbook) () () = Inr (Some ex_sheet)"
  using loadSheet_rule [of "\<lambda>d t. Inr ex_workbook" "()" "()" ex_workbook]
  by (simp add: declares_no_sheets_def ex_workbook_def)

section \<open>Extraction of the cell texts\<close>

lemma extract_cols_eq:
  "extract_cols sheet rw maxCC col rowData =
     rowData @ map (\<lambda>j. cell_text (cells sheet (encode_cell (rw - 1) (int j)))) [col..<maxCC]"
proof (induction sheet rw maxCC col rowData rule: extract_cols.induct)
  case (1 sheet rw maxCC col rowData)
  show ?case
  proof (cases "col < maxCC")
    case True
    then show ?thesis
      using "1.IH" by (subst extract_cols.simps) (simp add: upt_conv_Cons)
  next
    case False
    then show ?thesis by (subst extract_cols.simps) simp
  qed
qed

lemma extract_rows_eq:
  "extract_rows sheet block rw data =
     data @ map (\<lambda>r. extract_cols sheet r (maxColumnCount block) 0 []) [rw..endRow block]"
proof (induction sheet block rw data rule: extract_rows.induct)
  case (1 sheet block rw data)
  show ?case
  proof (cases "rw \<le> endRow block")
    case True
    then show ?thesis
      using "1.IH" by (subst extract_rows.simps) (simp add: upto_rec1)
  next
    case False
    then show ?thesis by (subst extract_rows.simps) simp
  qed
qed

lemma extractBlockData_eq:
  "extractBlockData sheet block =
     map (\<lambda>r. map (\<lambda>j. cell_text (cells sheet (encode_cell (r - 1) (int j))))
                 [0..<maxColumnCount block])
         [startRow block..endRow block]"
  by (simp add: extractBlockData_def extract_rows_eq extract_cols_eq)

text \<open>
  C5. For every sheet and every block with \<open>startRow \<le> endRow\<close>, \<open>extractBlockData\<close>
  returns exactly \<open>endRow - startRow + 1\<close> rows of exactly \<open>maxColumnCount\<close> strings
  each; the entry for row \<open>startRow + i\<close> and column \<open>j\<close> is the \<open>String\<close> coercion of the
  cell's value when the cell exists with a defined value, and the empty string when
  the cell is missing or its value is \<open>undefined\<close>. The function has no raising path:
  it is total and returns a plain list.
\<close>

theorem extractBlockData_rectangular:
  assumes "startRow block \<le> endRow block"
  shows "int (length (extractBlockData sheet block)) = endRow block - startRow block + 1 \<and>
         (\<forall>rowData \<in> set (extractBlockData sheet block).
            length rowData = maxColumnCount block) \<and>
         (\<forall>i j. i < length (extractBlockData sheet block) \<longrightarrow> j < maxColumnCount block \<longrightarrow>
            (\<forall>cl. cells sheet (encode_cell (startRow block + int i - 1) (int j)) = Some cl \<and>
                  cell_v cl \<noteq> Undefined \<longrightarrow>
                  extractBlockData sheet block ! i ! j = js_String (cell_v cl)) \<and>
            (cells sheet (encode_cell (startRow block + int i - 1) (int j)) = None \<or>
             cells sheet (encode_cell (startRow block + int i - 1) (int j)) =
               Some (Cell Undefined) \<longrightarrow>
                  extractBlockData sheet block ! i ! j = []))"
proof (intro conjI allI impI ballI)
  show "int (length (extractBlockData sheet block)) = endRow block - startRow block + 1"
    using assms by (simp add: extractBlockData_eq)
next
  fix rowData assume "rowData \<in> set (extractBlockData sheet block)"
  then show "length rowData = maxColumnCount block"
    by (auto simp: extractBlockData_eq)
next
  fix i j cl
  assume i: "i < length (extractBlockData sheet block)" and j: "j < maxColumnCount block"
    and c: "cells sheet (encode_cell (startRow block + int i - 1) (int j)) = Some cl \<and>
            cell_v cl \<noteq> Undefined"
  from i have "startRow block + int i \<le> endRow block"
    by (simp add: extractBlockData_eq)
  then show "extractBlockData sheet block ! i ! j = js_String (cell_v cl)"
    using i j c by (simp add: extractBlockData_eq cell_text_def)
next
  fix i j
  assume i: "i < length (extractBlockData sheet block)" and j: "j < maxColumnCount block"
    and c: "cells sheet (encode_cell (startRow block + int i - 1) (int j)) = None \<or>
            cells sheet (encode_cell (startRow block + int i - 1) (int j)) =
              Some (Cell Undefined)"
  from i have "startRow block + int i \<le> endRow block"
    by (simp add: extractBlockData_eq)
  then show "extractBlockData sheet block ! i ! j = []"
    using i j c by (auto simp: extractBlockData_eq cell_text_def)
qed

theorem extractBlockData_rectangular_witness:
  "startRow ex_block \<le> endRow ex_block \<and>
   int (length (extractBlockData ex_sheet ex_block)) = 2 \<and>
   extractBlockData ex_sheet ex_block ! 1 ! 1 = ''2'' \<and>
   extractBlockData ex_sheet ex_block ! 0 ! 1 = []"
proof -
  have h: "startRow ex_block \<le> endRow ex_block"
    by (simp add: ex_block_def)
  have a: "encode_cell 0 1 = ''B1''" and b: "encode_cell 1 1 = ''B2''"
    by code_simp+
  note t = extractBlockData_rectangular [OF h, of ex_sheet]
  from t have l: "int (length (extractBlockData ex_sheet ex_block)) = 2"
    by (simp add: ex_block_def)
  have i0: "0 < length (extractBlockData ex_sheet ex_block)"
    and i1: "1 < length (extractBlockData ex_sheet ex_block)"
    using l by simp_all
  have j1: "1 < maxColumnCount ex_block"
    by (simp add: ex_block_def)
  have "cells ex_sheet (encode_cell (startRow ex_block + int 1 - 1) (int 1)) =
          Some (Cell (Other ''2'')) \<and> cell_v (Cell (Other ''2'')) \<noteq> Undefined"
    using b by (simp add: ex_block_def ex_sheet_def)
  with t i1 j1 have "extractBlockData ex_sheet ex_block ! 1 ! 1 =
      js_String (cell_v (Cell (Other ''2'')))"
    by blast
  moreover have "cells ex_sheet (encode_cell (startRow ex_block + int 0 - 1) (int 1)) = None"
    using a by (simp add: ex_block_def ex_sheet_def)
  with t i0 j1 have "extractBlockData ex_sheet ex_block ! 0 ! 1 = []"
    by blast
  ultimately show ?thesis using h l by simp
qed

text \<open>
  C10. For every sheet and any two blocks that agree on \<open>startRow\<close>, \<open>endRow\<close> and
  \<open>maxColumnCount\<close>, \<open>extractBlockData\<close> returns the same result: the stored \<open>rows\<close>
  of the block play no part in the extraction.
\<close>

theorem extractBlockData_ignores_rows:
  assumes "startRow b1 = startRow b2" and "endRow b1 = endRow b2"
    and "maxColumnCount b1 = maxColumnCount b2"
  shows "extractBlockData sheet b1 = extractBlockData sheet b2"
  using assms by (simp add: extractBlockData_eq)

theorem extractBlockData_ignores_rows_witness:
  "startRow ex_block = startRow (ex_block\<lparr>rows := []\<rparr>) \<and>
   endRow ex_block = endRow (ex_block\<lparr>rows := []\<rparr>) \<and>
   maxColumnCount ex_block = maxColumnCount (ex_block\<lparr>rows := []\<rparr>) \<and>
   rows ex_block \<noteq> rows (ex_block\<lparr>rows := []\<rparr>) \<and>
   extractBlockData ex_sheet ex_block = extractBlockData ex_sheet (ex_block\<lparr>rows := []\<rparr>)"
  using extractBlockData_ignores_rows [of ex_block "ex_block\<lparr>rows := []\<rparr>" ex_sheet]
  by (simp add: ex_block_def)

end
